theory Spec2Isabelle
  imports Main "HOL-Library.Word" "HOL-Library.AList"
begin

unbundle bit_operations_syntax

section \<open>Machine types\<close>

text \<open>
  Go's \<^verbatim>\<open>byte\<close>, \<^verbatim>\<open>uint64\<close> and \<^verbatim>\<open>int64\<close>. An \<^verbatim>\<open>int64\<close> is a 64-bit word read in
  two's complement by \<open>sint\<close>; the conversion \<^verbatim>\<open>uint64(x)\<close> keeps the bits. A Go
  \<^verbatim>\<open>string\<close> and a \<^verbatim>\<open>[]byte\<close> key are byte sequences: \<open>string\<close>.
\<close>

type_synonym byte = "8 word"
type_synonym uint64 = "64 word"
type_synonym int64 = "64 word"

section \<open>encoding/binary: PutVarint and Varint\<close>

text \<open>
  \<^verbatim>\<open>SaveGametime\<close> and \<^verbatim>\<open>GetUserGametime\<close> store and read the totals with
  \<^verbatim>\<open>binary.PutVarint\<close> and \<^verbatim>\<open>binary.Varint\<close> of Go's standard library. The library is
  not part of the repository; the functions below follow its source:
  \<^verbatim>\<open>
  const MaxVarintLen64 = 10

  func PutUvarint(buf []byte, x uint64) int {
      i := 0
      for x >= 0x80 {
          buf[i] = byte(x) | 0x80
          x >>= 7
          i++
      }
      buf[i] = byte(x)
      return i + 1
  }

  func PutVarint(buf []byte, x int64) int {
      ux := uint64(x) << 1
      if x < 0 {
          ux = ^ux
      }
      return PutUvarint(buf, ux)
  }

  func Uvarint(buf []byte) (uint64, int) {
      var x uint64
      var s uint
      for i, b := range buf {
          if i == MaxVarintLen64 {
              return 0, -(i + 1) // overflow
          }
          if b < 0x80 {
              if i == MaxVarintLen64-1 && b > 1 {
                  return 0, -(i + 1) // overflow
              }
              return x | uint64(b)<<s, i + 1
          }
          x |= uint64(b&0x7f) << s
          s += 7
      }
      return 0, 0
  }

  func Varint(buf []byte) (int64, int) {
      ux, n := Uvarint(buf) // ok to continue in presence of error
      x := int64(ux >> 1)
      if ux&1 != 0 {
          x = ^x
      }
      return x, n
  }
  \<close>
  A write \<^verbatim>\<open>buf[i] = ...\<close> beyond the end of the buffer panics: the result \<open>None\<close>.
\<close>

definition MaxVarintLen64 :: nat where
  "MaxVarintLen64 = 10"

function PutUvarint_loop :: "byte list \<Rightarrow> nat \<Rightarrow> uint64 \<Rightarrow> (byte list \<times> nat) option" where
  "PutUvarint_loop buf i x =
     (if 0x80 \<le> x then
        (if i < length buf
         then PutUvarint_loop (buf[i := ucast x OR 0x80]) (i + 1) (drop_bit 7 x)
         else None)
      else
        (if i < length buf then Some (buf[i := ucast x], i + 1) else None))"
  by pat_completeness auto
termination
  by (relation "measure (\<lambda>(buf, i, x). unat x)")
    (auto simp: word_le_nat_alt drop_bit_eq_div unat_div)

declare PutUvarint_loop.simps [simp del]

definition PutUvarint :: "byte list \<Rightarrow> uint64 \<Rightarrow> (byte list \<times> nat) option" where
  "PutUvarint buf x = PutUvarint_loop buf 0 x"

definition PutVarint :: "byte list \<Rightarrow> int64 \<Rightarrow> (byte list \<times> nat) option" where
  "PutVarint buf x =
     (let ux = push_bit 1 x;
          ux = (if x <s 0 then NOT ux else ux)
      in PutUvarint buf ux)"

fun Uvarint_loop :: "byte list \<Rightarrow> nat \<Rightarrow> uint64 \<Rightarrow> nat \<Rightarrow> uint64 \<times> int" where
  "Uvarint_loop [] i x s = (0, 0)"
| "Uvarint_loop (b # bs) i x s =
     (if i = MaxVarintLen64 then (0, - (int i + 1))
      else if b < 0x80 then
        (if i = MaxVarintLen64 - 1 \<and> 1 < b then (0, - (int i + 1))
         else (x OR push_bit s (ucast b), int i + 1))
      else Uvarint_loop bs (i + 1) (x OR push_bit s (ucast (b AND 0x7f))) (s + 7))"

definition Uvarint :: "byte list \<Rightarrow> uint64 \<times> int" where
  "Uvarint buf = Uvarint_loop buf 0 0 0"

definition Varint :: "byte list \<Rightarrow> int64 \<times> int" where
  "Varint buf =
     (let (ux, n) = Uvarint buf;
          x = drop_bit 1 ux;
          x = (if ux AND 1 \<noteq> 0 then NOT x else x)
      in (x, n))"

text \<open>
  The bytes \<^verbatim>\<open>PutUvarint\<close> writes for \<open>x\<close>, as a list: the loop above without the
  buffer. It is used in the proofs only.
\<close>

function varint_bytes :: "uint64 \<Rightarrow> byte list" where
  "varint_bytes x =
     (if 0x80 \<le> x then (ucast x OR 0x80) # varint_bytes (drop_bit 7 x) else [ucast x])"
  by pat_completeness auto
termination
  by (relation "measure unat") (auto simp: word_le_nat_alt drop_bit_eq_div unat_div)

declare varint_bytes.simps [simp del]

section \<open>time: instants, durations and the clock\<close>

text \<open>
  An instant is a number of nanoseconds on the time line of the clock; a
  \<^verbatim>\<open>time.Duration\<close> is an \<^verbatim>\<open>int64\<close> of nanoseconds. Of Go's \<^verbatim>\<open>time\<close> package:
  \<^verbatim>\<open>t.Add(d)\<close> is the instant \<open>t + d\<close>; \<^verbatim>\<open>t.Sub(u)\<close> is the duration \<open>t - u\<close>, and
  "if the result exceeds the maximum (or minimum) value that can be stored in a Duration,
  the maximum (or minimum) duration will be returned"; \<^verbatim>\<open>time.Since(t)\<close> is
  \<^verbatim>\<open>time.Now().Sub(t)\<close>; \<^verbatim>\<open>d.Nanoseconds()\<close> is \<^verbatim>\<open>int64(d)\<close>.

  \<^verbatim>\<open>time.Now()\<close> reads the clock. A clock is the sequence of the values its reads
  return; every function that reads it takes the clock and the number \<open>k\<close> of reads made
  so far, and returns the number of reads made when it is done.
\<close>

type_synonym Time = int
type_synonym Duration = int64
type_synonym clock = "nat \<Rightarrow> Time"

definition maxDuration :: int where
  "maxDuration = 2 ^ 63 - 1"

definition minDuration :: int where
  "minDuration = - (2 ^ 63)"

definition Time_Add :: "Time \<Rightarrow> Duration \<Rightarrow> Time" where
  "Time_Add t d = t + sint d"

definition Time_Sub :: "Time \<Rightarrow> Time \<Rightarrow> Duration" where
  "Time_Sub t u =
     (if maxDuration < t - u then word_of_int maxDuration
      else if t - u < minDuration then word_of_int minDuration
      else word_of_int (t - u))"

definition Nanoseconds :: "Duration \<Rightarrow> int64" where
  "Nanoseconds d = d"

section \<open>bolt: buckets and transactions\<close>

text \<open>
  The durable store is a bolt database (\<^verbatim>\<open>github.com/boltdb/bolt\<close>, not part of the
  repository): named buckets of key/value pairs. The program keeps one bucket per user at
  the root and never nests buckets, so a transaction sees a map from bucket names to
  buckets, and a bucket is a map from keys to values. Of bolt's contract:
  \<^item> \<^verbatim>\<open>tx.CreateBucketIfNotExists(name)\<close> returns the bucket of that name, creating it
    empty when there is none; it fails with \<^verbatim>\<open>ErrBucketNameRequired\<close> on an empty name;
  \<^item> \<^verbatim>\<open>tx.Bucket(name)\<close> returns the bucket, or nil when there is none;
  \<^item> \<^verbatim>\<open>b.Get(key)\<close> returns the value, or nil when the key is not there;
  \<^item> \<^verbatim>\<open>b.Put(key, value)\<close> sets the value of the key; it fails with
    \<^verbatim>\<open>ErrKeyRequired\<close> on an empty key, \<^verbatim>\<open>ErrKeyTooLarge\<close> on a key longer than
    \<^verbatim>\<open>MaxKeySize\<close> and \<^verbatim>\<open>ErrValueTooLarge\<close> on a value longer than \<^verbatim>\<open>MaxValueSize\<close>;
  \<^item> \<^verbatim>\<open>db.Update(fn)\<close> runs \<^verbatim>\<open>fn\<close> in a read-write transaction; when \<^verbatim>\<open>fn\<close> returns
    an error the transaction is rolled back and the error is returned, otherwise the
    transaction is committed;
  \<^item> \<^verbatim>\<open>db.View(fn)\<close> runs \<^verbatim>\<open>fn\<close> in a read-only transaction and returns its error.

  A bucket handle writes into its transaction: \<^verbatim>\<open>SaveGametime\<close> below puts the bucket
  it has changed back under its name.
\<close>

datatype error =
    ErrBucketNameRequired
  | ErrKeyRequired
  | ErrKeyTooLarge
  | ErrValueTooLarge
  | ErrUserNeverPlayed
  | PanicIndexOutOfRange

type_synonym Bucket = "string \<rightharpoonup> byte list"
type_synonym Tx = "string \<rightharpoonup> Bucket"

definition MaxKeySize :: nat where
  "MaxKeySize = 32768"

definition MaxValueSize :: nat where
  "MaxValueSize = 2 ^ 31 - 2"

definition CreateBucketIfNotExists :: "Tx \<Rightarrow> string \<Rightarrow> error + Tx \<times> Bucket" where
  "CreateBucketIfNotExists t name =
     (if name = [] then Inl ErrBucketNameRequired
      else (case t name of
              None \<Rightarrow> Inr (t(name \<mapsto> Map.empty), Map.empty)
            | Some b \<Rightarrow> Inr (t, b)))"

definition Tx_Bucket :: "Tx \<Rightarrow> string \<Rightarrow> Bucket option" where
  "Tx_Bucket t name = t name"

definition Bucket_Get :: "Bucket \<Rightarrow> string \<Rightarrow> byte list option" where
  "Bucket_Get b key = b key"

definition Bucket_Put :: "Bucket \<Rightarrow> string \<Rightarrow> byte list \<Rightarrow> error + Bucket" where
  "Bucket_Put b key val =
     (if key = [] then Inl ErrKeyRequired
      else if MaxKeySize < length key then Inl ErrKeyTooLarge
      else if MaxValueSize < length val then Inl ErrValueTooLarge
      else Inr (b(key \<mapsto> val)))"

definition DB_Update :: "Tx \<Rightarrow> error option \<times> Tx \<Rightarrow> Tx \<times> error option" where
  "DB_Update db r =
     (case r of
        (Some err, t) \<Rightarrow> (db, Some err)
      | (None, t) \<Rightarrow> (t, None))"

text \<open>The value stored under a user and a game, when there is one.\<close>

definition entry :: "Tx \<Rightarrow> string \<Rightarrow> string \<Rightarrow> byte list option" where
  "entry t uid gid = (case t uid of None \<Rightarrow> None | Some b \<Rightarrow> b gid)"

section \<open>The time counter\<close>

record PlayingUser =
  UserID :: string
  StartTime :: Time
  GameID :: string

text \<open>
  \<^verbatim>\<open>func (p *PlayingUser) SaveGametime(t *bolt.Tx) error\<close>. The transaction and \<open>p\<close>
  are changed in place, so the function returns them with its error (\<open>None\<close> is nil): a
  failure after \<^verbatim>\<open>CreateBucketIfNotExists\<close> leaves the bucket it created in the
  transaction. The clock is read for the total (\<^verbatim>\<open>time.Now()\<close> in the first branch,
  \<^verbatim>\<open>time.Since\<close> in the second) and once more for the new start time. The count
  \<^verbatim>\<open>binary.Varint\<close> returns is dropped (\<^verbatim>\<open>played, _ := binary.Varint(bPlayed)\<close>).
\<close>

definition SaveGametime ::
  "clock \<Rightarrow> PlayingUser \<Rightarrow> Tx \<Rightarrow> nat \<Rightarrow> error option \<times> Tx \<times> PlayingUser \<times> nat" where
  "SaveGametime clk p t k =
     (case CreateBucketIfNotExists t (UserID p) of
        Inl err \<Rightarrow> (Some err, t, p, k)
      | Inr (t1, b) \<Rightarrow>
          (case Bucket_Get b (GameID p) of
             Some bPlayed \<Rightarrow>
               (let played = fst (Varint bPlayed);
                    total = Time_Add (clk k) played
                in case PutVarint (replicate MaxVarintLen64 0)
                          (Nanoseconds (Time_Sub total (StartTime p))) of
                     None \<Rightarrow> (Some PanicIndexOutOfRange, t1, p, Suc k)
                   | Some (newPlayed, n) \<Rightarrow>
                       (case Bucket_Put b (GameID p) newPlayed of
                          Inl err \<Rightarrow> (Some err, t1, p, Suc k)
                        | Inr b' \<Rightarrow>
                            (None, t1(UserID p \<mapsto> b'), p\<lparr>StartTime := clk (Suc k)\<rparr>,
                             Suc (Suc k))))
           | None \<Rightarrow>
               (case PutVarint (replicate MaxVarintLen64 0)
                       (Nanoseconds (Time_Sub (clk k) (StartTime p))) of
                  None \<Rightarrow> (Some PanicIndexOutOfRange, t1, p, Suc k)
                | Some (newPlayed, n) \<Rightarrow>
                    (case Bucket_Put b (GameID p) newPlayed of
                       Inl err \<Rightarrow> (Some err, t1, p, Suc k)
                     | Inr b' \<Rightarrow>
                         (None, t1(UserID p \<mapsto> b'), p\<lparr>StartTime := clk (Suc k)\<rparr>,
                          Suc (Suc k))))))"

text \<open>
  \<^verbatim>\<open>TimeCounter\<close>: the sessions in progress, a Go map from user ids to
  \<^verbatim>\<open>PlayingUser\<close> values (an association list, in the order \<^verbatim>\<open>range\<close> visits it),
  and the database. The channel carries the sessions to end to \<^verbatim>\<open>EndGametime\<close>.
\<close>

record TimeCounter =
  InProgress :: "(string \<times> PlayingUser) list"
  GametimeDB :: Tx

text \<open>
  \<^verbatim>\<open>StartGametime(user, game)\<close>, with \<open>uid\<close> for \<^verbatim>\<open>user.ID\<close> and \<open>gid\<close> for
  \<^verbatim>\<open>string(game.ID)\<close>.
\<close>

definition StartGametime :: "clock \<Rightarrow> TimeCounter \<Rightarrow> string \<Rightarrow> string \<Rightarrow> nat \<Rightarrow> TimeCounter \<times> nat" where
  "StartGametime clk counter uid gid k =
     (let pUser = \<lparr>UserID = uid, StartTime = clk k, GameID = gid\<rparr>
      in (counter\<lparr>InProgress := AList.update uid pUser (InProgress counter)\<rparr>, Suc k))"

text \<open>
  \<^verbatim>\<open>EndGametime(pUser)\<close>: \<open>pUser\<close> is passed by value, so the start time
  \<^verbatim>\<open>SaveGametime\<close> sets is dropped. The error, when there is one, is logged: it is
  returned here next to the counter.
\<close>

definition EndGametime ::
  "clock \<Rightarrow> TimeCounter \<Rightarrow> PlayingUser \<Rightarrow> nat \<Rightarrow> TimeCounter \<times> error option \<times> nat" where
  "EndGametime clk counter pUser k =
     (let inProgress = AList.delete (UserID pUser) (InProgress counter);
          (err, t, p, k') = SaveGametime clk pUser (GametimeDB counter) k;
          (db, logged) = DB_Update (GametimeDB counter) (err, t)
      in (counter\<lparr>InProgress := inProgress, GametimeDB := db\<rparr>, logged, k'))"

text \<open>
  \<^verbatim>\<open>Listen()\<close> receives the sessions to end from the channel and starts
  \<^verbatim>\<open>EndGametime\<close> for each of them in a goroutine of its own. bolt runs one read-write
  transaction at a time, and \<^verbatim>\<open>SaveGametime\<close> reads the clock inside its transaction,
  so for the database a run of \<^verbatim>\<open>Listen\<close> is the run of the \<^verbatim>\<open>EndGametime\<close> calls one
  after the other, in the order of their transactions: the list of the sessions is in
  that order. Nothing orders the deletions from \<^verbatim>\<open>InProgress\<close>; no statement below
  depends on them.
\<close>

fun Listen ::
  "clock \<Rightarrow> TimeCounter \<Rightarrow> PlayingUser list \<Rightarrow> nat \<Rightarrow> TimeCounter \<times> error option list \<times> nat" where
  "Listen clk counter [] k = (counter, [], k)"
| "Listen clk counter (pUser # rest) k =
     (case EndGametime clk counter pUser k of
        (counter', logged, k') \<Rightarrow>
          (case Listen clk counter' rest k' of
             (counter'', logs, k'') \<Rightarrow> (counter'', logged # logs, k'')))"

text \<open>
  \<^verbatim>\<open>GetUserGametime(user)\<close> returns the map it has built together with the error.
  \<^verbatim>\<open>ForEach\<close> visits every pair of the bucket and sets
  \<^verbatim>\<open>gameMap[string(gameID)], _ = binary.Varint(nanoTime)\<close>.
\<close>

definition GetUserGametime :: "TimeCounter \<Rightarrow> string \<Rightarrow> (string \<rightharpoonup> int64) \<times> error option" where
  "GetUserGametime counter uid =
     (case Tx_Bucket (GametimeDB counter) uid of
        None \<Rightarrow> (Map.empty, Some ErrUserNeverPlayed)
      | Some b \<Rightarrow>
          ((\<lambda>gameID. case b gameID of
                        None \<Rightarrow> None
                      | Some nanoTime \<Rightarrow> Some (fst (Varint nanoTime))),
           None))"

text \<open>
  \<^verbatim>\<open>Snapshot()\<close>: one transaction over all sessions in progress. The loop variable
  \<^verbatim>\<open>pUser\<close> of \<^verbatim>\<open>for _, pUser := range counter.InProgress\<close> is a copy of the map's
  value, and \<^verbatim>\<open>pUser.SaveGametime(t)\<close> changes that copy: the map is not written. An
  error is logged and the loop goes on; the closure returns nil, so the transaction is
  committed.
\<close>

fun Snapshot_loop ::
  "clock \<Rightarrow> (string \<times> PlayingUser) list \<Rightarrow> Tx \<Rightarrow> nat \<Rightarrow> Tx \<times> error list \<times> nat" where
  "Snapshot_loop clk [] t k = (t, [], k)"
| "Snapshot_loop clk ((uid, pUser) # rest) t k =
     (case SaveGametime clk pUser t k of
        (Some err, t', p', k') \<Rightarrow>
          (case Snapshot_loop clk rest t' k' of
             (t'', logged, k'') \<Rightarrow> (t'', err # logged, k''))
      | (None, t', p', k') \<Rightarrow> Snapshot_loop clk rest t' k')"

definition Snapshot :: "clock \<Rightarrow> TimeCounter \<Rightarrow> nat \<Rightarrow> TimeCounter \<times> error list \<times> nat" where
  "Snapshot clk counter k =
     (case Snapshot_loop clk (InProgress counter) (GametimeDB counter) k of
        (t, logged, k') \<Rightarrow> (counter\<lparr>GametimeDB := t\<rparr>, logged, k'))"

section \<open>gobot/main.go: countPlaytime\<close>

text \<open>
  The playtime of \<^verbatim>\<open>gobot/main.go\<close> is kept in memory:
  \<^verbatim>\<open>playedTime map[string]map[string]int64\<close>. \<^verbatim>\<open>countPlaytime(user, game)\<close> reads the
  clock (\<open>start\<close>), waits on the user's channel, and then reads the clock again (\<open>now\<close>)
  to update the total; \<open>strGameID\<close> is \<^verbatim>\<open>strconv.Itoa(game.ID)\<close>.
\<close>

record PlayState =
  usersPlaying :: "string set"
  playedTime :: "string \<rightharpoonup> (string \<rightharpoonup> int64)"

definition countPlaytime :: "PlayState \<Rightarrow> string \<Rightarrow> string \<Rightarrow> Time \<Rightarrow> Time \<Rightarrow> PlayState" where
  "countPlaytime st userID strGameID start now =
     (let games = (case playedTime st userID of None \<Rightarrow> Map.empty | Some m \<Rightarrow> m);
          games' =
            (case games strGameID of
               Some played \<Rightarrow>
                 (let total = Time_Add now played
                  in games(strGameID \<mapsto> Nanoseconds (Time_Sub total start)))
             | None \<Rightarrow> games(strGameID \<mapsto> Nanoseconds (Time_Sub now start)))
      in st\<lparr>usersPlaying := usersPlaying st - {userID},
            playedTime := (playedTime st)(userID \<mapsto> games')\<rparr>)"

section \<open>Notions used in the statements\<close>

text \<open>
  The unsigned value \<^verbatim>\<open>PutVarint\<close> hands to \<^verbatim>\<open>PutUvarint\<close>, and the buffer
  \<^verbatim>\<open>SaveGametime\<close> stores for a total \<open>x\<close>: its bytes, then zeros up to
  \<^verbatim>\<open>MaxVarintLen64\<close>.
\<close>

definition zigzag :: "int64 \<Rightarrow> uint64" where
  "zigzag x = (if x <s 0 then NOT (push_bit 1 x) else push_bit 1 x)"

definition encoded :: "int64 \<Rightarrow> byte list" where
  "encoded x =
     varint_bytes (zigzag x) @ replicate (MaxVarintLen64 - length (varint_bytes (zigzag x))) 0"

text \<open>
  The total an entry stands for in a merge: the value \<^verbatim>\<open>Varint\<close> returns for its
  bytes, and zero when there is no entry. \<open>saturate\<close> brings an integer into the range
  of a \<^verbatim>\<open>Duration\<close>.
\<close>

definition stored_total :: "Tx \<Rightarrow> string \<Rightarrow> string \<Rightarrow> int" where
  "stored_total t uid gid =
     (case entry t uid gid of None \<Rightarrow> 0 | Some bs \<Rightarrow> sint (fst (Varint bs)))"

definition played_total :: "PlayState \<Rightarrow> string \<Rightarrow> string \<Rightarrow> int" where
  "played_total st uid gid =
     (case playedTime st uid of
        None \<Rightarrow> 0
      | Some m \<Rightarrow> (case m gid of None \<Rightarrow> 0 | Some v \<Rightarrow> sint v))"

definition saturate :: "int \<Rightarrow> int" where
  "saturate x = max minDuration (min maxDuration x)"

text \<open>
  What C8 asks of the database before and after a write: every entry is still there,
  its value is not smaller, and an entry that decoded with a positive count still does.
\<close>

definition kept :: "Tx \<Rightarrow> Tx \<Rightarrow> bool" where
  "kept t t' \<longleftrightarrow>
     (\<forall>uid gid bs. entry t uid gid = Some bs \<longrightarrow>
        (\<exists>bs'. entry t' uid gid = Some bs'
           \<and> sint (fst (Varint bs)) \<le> sint (fst (Varint bs'))
           \<and> (0 < snd (Varint bs) \<longrightarrow> 0 < snd (Varint bs'))))"

text \<open>
  A clock given by the list of the values its reads return (the last one from then on).
\<close>

definition readings :: "Time list \<Rightarrow> clock" where
  "readings ts n = (if n < length ts then ts ! n else last ts)"

section \<open>The varint encoding round-trips\<close>

lemma bit_128_byte: "bit (128 :: byte) n \<longleftrightarrow> n = 7"
proof -
  have e: "(128 :: byte) = 2 ^ 7" by simp
  show ?thesis unfolding e by (subst bit_exp_iff) auto
qed

lemma cont_byte_ge: "\<not> ((ucast (x::uint64) OR 0x80 :: byte) < 0x80)"
  using le_word_or1 [of "0x80 :: byte" "ucast x"] by (simp add: not_less)

lemma cont_byte_payload: "(ucast ((ucast (x::uint64) OR 0x80 :: byte) AND 0x7f) :: uint64) = take_bit 7 x"
proof -
  have m: "(0x7f :: byte) = mask 7" by (simp add: mask_eq_exp_minus_1)
  show ?thesis
    unfolding m
    by (rule bit_word_eqI) (auto simp: bit_simps bit_128_byte simp del: bit_numeral_word_iff)
qed

lemma last_byte_lt: "(x::uint64) < 0x80 \<Longrightarrow> (ucast x :: byte) < 0x80"
  by (simp add: word_less_nat_alt unsigned_ucast_eq take_bit_eq_mod)

lemma last_byte_val: "(x::uint64) < 0x80 \<Longrightarrow> (ucast (ucast x :: byte) :: uint64) = x"
  by (simp add: word_unat_eq_iff word_less_nat_alt unsigned_ucast_eq take_bit_eq_mod unat_mod)

lemma split_low7: "(take_bit 7 (y::uint64)) OR push_bit 7 (drop_bit 7 y) = y"
proof (rule bit_word_eqI)
  fix n assume "n < LENGTH(64)"
  then show "bit (take_bit 7 y OR push_bit 7 (drop_bit 7 y)) n \<longleftrightarrow> bit y n"
    by (cases "n < 7") (auto simp: bit_simps)
qed

lemma varint_bytes_length_pos: "0 < length (varint_bytes x)"
  by (subst varint_bytes.simps) simp

lemma PutUvarint_loop_bytes:
  "PutUvarint_loop buf i x =
     (if i + length (varint_bytes x) \<le> length buf
      then Some (take i buf @ varint_bytes x @ drop (i + length (varint_bytes x)) buf,
                 i + length (varint_bytes x))
      else None)"
proof (induction buf i x rule: PutUvarint_loop.induct)
  case (1 buf i x)
  show ?case
  proof (cases "0x80 \<le> x")
    case True
    note hi = True
    show ?thesis
    proof (cases "i < length buf")
      case True
      define b where "b = (ucast x OR 0x80 :: byte)"
      define x' where "x' = drop_bit 7 x"
      define n where "n = length (varint_bytes x')"
      have u: "buf[i := b] = take i buf @ b # drop (Suc i) buf"
        using True by (rule upd_conv_take_nth_drop)
      have t: "take (Suc i) (buf[i := b]) = take i buf @ [b]"
        using True by (simp add: u)
      have d: "drop (Suc (i + n)) (buf[i := b]) = drop (Suc (i + n)) buf"
        by simp
      have v: "varint_bytes x = b # varint_bytes x'"
        using hi unfolding b_def x'_def by (subst varint_bytes.simps) simp
      have l: "PutUvarint_loop buf i x = PutUvarint_loop (buf[i := b]) (Suc i) x'"
        using hi True unfolding b_def x'_def by (subst PutUvarint_loop.simps) simp
      have ih: "PutUvarint_loop (buf[i := b]) (Suc i) x' =
          (if Suc (i + n) \<le> length buf
           then Some (take (Suc i) (buf[i := b]) @ varint_bytes x' @ drop (Suc (i + n)) (buf[i := b]),
                      Suc (i + n))
           else None)"
        using "1.IH" [OF hi True] unfolding b_def x'_def n_def by simp
      have len: "length (varint_bytes x) = Suc n"
        by (simp add: v n_def)
      show ?thesis
        unfolding l ih t d len by simp (simp add: v)
    next
      case False
      have "PutUvarint_loop buf i x = None"
        using hi False by (subst PutUvarint_loop.simps) simp
      then show ?thesis using False varint_bytes_length_pos [of x]
        by (simp del: length_greater_0_conv)
    qed
  next
    case False
    have v: "varint_bytes x = [ucast x]"
      using False by (subst varint_bytes.simps) simp
    show ?thesis
    proof (cases "i < length buf")
      case True
      have "PutUvarint_loop buf i x = Some (buf[i := ucast x], i + 1)"
        using False True by (subst PutUvarint_loop.simps) simp
      then show ?thesis using True by (simp add: v upd_conv_take_nth_drop)
    next
      case False
      note nb = False
      have "PutUvarint_loop buf i x = None"
        using \<open>\<not> 0x80 \<le> x\<close> nb by (subst PutUvarint_loop.simps) simp
      then show ?thesis using nb by (simp add: v)
    qed
  qed
qed

lemma varint_bytes_length_le:
  "unat x < 2 ^ (7 * k) \<Longrightarrow> 0 < k \<Longrightarrow> length (varint_bytes x) \<le> k"
proof (induction x arbitrary: k rule: varint_bytes.induct)
  case (1 x)
  show ?case
  proof (cases "0x80 \<le> x")
    case True
    then have x128: "128 \<le> unat x" by (simp add: word_le_nat_alt)
    have k1: "1 < k"
    proof (rule ccontr)
      assume "\<not> 1 < k"
      with "1.prems" have "k = 1" by simp
      with "1.prems" x128 show False by simp
    qed
    then obtain k' where k': "k = Suc k'" "0 < k'" by (cases k) auto
    have "unat (drop_bit 7 x) = unat x div 2 ^ 7"
      by (simp add: drop_bit_eq_div unat_div)
    also have "\<dots> < 2 ^ (7 * k')"
      using "1.prems"(1) k'(1) by (simp add: less_mult_imp_div_less power_add mult.commute)
    finally have "length (varint_bytes (drop_bit 7 x)) \<le> k'"
      using "1.IH" [OF True _ k'(2)] by simp
    then show ?thesis
      using True k'(1) by (subst varint_bytes.simps) simp
  next
    case False
    then show ?thesis using "1.prems" by (subst varint_bytes.simps) simp
  qed
qed

lemma varint_bytes_length_64: "length (varint_bytes x) \<le> MaxVarintLen64"
proof -
  have "unat x < 2 ^ 64" using unsigned_less [of x] by simp
  also have "\<dots> \<le> (2::nat) ^ (7 * 10)" by simp
  finally show ?thesis
    using varint_bytes_length_le [of x 10] by (simp add: MaxVarintLen64_def)
qed

lemma Uvarint_loop_bytes:
  "unat y < 2 ^ (64 - 7 * i) \<Longrightarrow> i \<le> 9 \<Longrightarrow>
   Uvarint_loop (varint_bytes y @ rest) i acc (7 * i) =
     (acc OR push_bit (7 * i) y, int i + int (length (varint_bytes y)))"
proof (induction y arbitrary: i acc rule: varint_bytes.induct)
  case (1 y)
  show ?case
  proof (cases "0x80 \<le> y")
    case True
    define b where "b = (ucast y OR 0x80 :: byte)"
    define y' where "y' = drop_bit 7 y"
    have v: "varint_bytes y = b # varint_bytes y'"
      using True unfolding b_def y'_def by (subst varint_bytes.simps) simp
    have y128: "2 ^ 7 \<le> unat y" using True by (simp add: word_le_nat_alt)
    have i8: "i \<le> 8"
    proof (rule ccontr)
      assume "\<not> i \<le> 8"
      with "1.prems" have "i = 9" by simp
      with "1.prems" y128 show False by simp
    qed
    then have e: "64 - 7 * i = (64 - 7 * Suc i) + 7" by simp
    have "unat y' = unat y div 2 ^ 7"
      by (simp add: y'_def drop_bit_eq_div unat_div)
    also have "\<dots> < 2 ^ (64 - 7 * Suc i)"
      using "1.prems"(1) unfolding e by (simp add: less_mult_imp_div_less power_add)
    finally have small: "unat y' < 2 ^ (64 - 7 * Suc i)" .
    have nb: "\<not> b < 0x80" unfolding b_def by (rule cont_byte_ge)
    have pl: "(ucast (b AND 0x7f) :: uint64) = take_bit 7 y"
      unfolding b_def by (rule cont_byte_payload)
    have step: "Uvarint_loop (varint_bytes y @ rest) i acc (7 * i) =
        Uvarint_loop (varint_bytes y' @ rest) (Suc i) (acc OR push_bit (7 * i) (take_bit 7 y)) (7 * Suc i)"
      using i8 nb by (simp add: v pl MaxVarintLen64_def add.commute)
    have ih: "Uvarint_loop (varint_bytes y' @ rest) (Suc i) (acc OR push_bit (7 * i) (take_bit 7 y)) (7 * Suc i) =
        ((acc OR push_bit (7 * i) (take_bit 7 y)) OR push_bit (7 * Suc i) y',
         int (Suc i) + int (length (varint_bytes y')))"
      using "1.IH" [OF True, of "Suc i"] small i8 unfolding y'_def by simp
    have "push_bit (7 * Suc i) y' = push_bit (7 * i) (push_bit 7 y')"
      by (simp add: push_bit_push_bit add.commute)
    then have "(acc OR push_bit (7 * i) (take_bit 7 y)) OR push_bit (7 * Suc i) y' =
        acc OR push_bit (7 * i) (take_bit 7 y OR push_bit 7 y')"
      by (simp add: push_bit_or or.assoc)
    also have "take_bit 7 y OR push_bit 7 y' = y"
      unfolding y'_def by (rule split_low7)
    finally show ?thesis
      unfolding step ih by (simp add: v)
  next
    case False
    then have lt: "y < 0x80" by simp
    define b where "b = (ucast y :: byte)"
    have v: "varint_bytes y = [b]"
      using False unfolding b_def by (subst varint_bytes.simps) simp
    have bl: "b < 0x80" unfolding b_def using lt by (rule last_byte_lt)
    have bv: "(ucast b :: uint64) = y" unfolding b_def using lt by (rule last_byte_val)
    have top: "i = 9 \<Longrightarrow> \<not> 1 < b"
    proof -
      assume "i = 9"
      with "1.prems" have "unat y < 2" by simp
      then have "unat b < 2"
        unfolding b_def by (simp add: unsigned_ucast_eq take_bit_eq_mod)
      then show "\<not> 1 < b" by (simp add: word_less_nat_alt)
    qed
    show ?thesis
      using "1.prems"(2) bl top by (auto simp: v bv MaxVarintLen64_def)
  qed
qed

lemma bit_double_int64: "bit (x * 2 :: int64) (Suc n) \<longleftrightarrow> Suc n < 64 \<and> bit x n"
  using bit_double_Suc_iff [of x n] by (simp add: mult.commute possible_bit_word)

lemma zigzag_inverse:
  fixes x :: int64
  defines "ux \<equiv> (if x <s 0 then NOT (push_bit 1 x) else push_bit 1 x)"
  shows "(if ux AND 1 \<noteq> 0 then NOT (drop_bit 1 ux) else drop_bit 1 ux) = x"
proof (cases "x <s 0")
  case True
  then have msb: "bit x 63"
    using bit_last_iff [of x] by (simp add: word_sless_alt)
  have ux: "ux = NOT (push_bit 1 x)" using True by (simp add: ux_def)
  have odd: "ux AND 1 \<noteq> 0"
    unfolding ux by (simp add: and_one_eq mod_2_eq_odd)
  have "NOT (drop_bit 1 (NOT (push_bit 1 x))) = x"
  proof (rule bit_word_eqI)
    fix n assume "n < LENGTH(64)"
    then show "bit (NOT (drop_bit 1 (NOT (push_bit 1 x)))) n \<longleftrightarrow> bit x n"
      using msb by (cases "n = 63") (auto simp: bit_simps bit_double_int64 dest: bit_imp_le_length)
  qed
  then show ?thesis using odd by (simp add: ux)
next
  case False
  then have msb: "\<not> bit x 63"
    using bit_last_iff [of x] by (simp add: word_sless_alt)
  have ux: "ux = push_bit 1 x" using False by (simp add: ux_def)
  have even: "ux AND 1 = 0"
    unfolding ux by (simp add: and_one_eq mod_2_eq_odd)
  have "drop_bit 1 (push_bit 1 x) = x"
  proof (rule bit_word_eqI)
    fix n assume "n < LENGTH(64)"
    then show "bit (drop_bit 1 (push_bit 1 x)) n \<longleftrightarrow> bit x n"
      using msb by (cases "n = 63") (auto simp: bit_simps bit_double_int64 dest: bit_imp_le_length)
  qed
  then show ?thesis using even by (simp add: ux)
qed

lemma PutUvarint_make:
  "PutUvarint (replicate MaxVarintLen64 0) ux =
     Some (varint_bytes ux @ replicate (MaxVarintLen64 - length (varint_bytes ux)) 0,
           length (varint_bytes ux))"
  using varint_bytes_length_64 [of ux]
  by (simp add: PutUvarint_def PutUvarint_loop_bytes)

lemma Uvarint_varint_bytes:
  "Uvarint (varint_bytes ux @ rest) = (ux, int (length (varint_bytes ux)))"
proof -
  have "unat ux < 2 ^ (64 - 7 * 0)" using unsigned_less [of ux] by simp
  from Uvarint_loop_bytes [OF this, of rest 0] show ?thesis
    by (simp add: Uvarint_def)
qed

lemma Varint_PutVarint:
  "PutVarint (replicate MaxVarintLen64 0) x = Some (buf, n) \<Longrightarrow> Varint buf = (x, int n) \<and> 0 < n"
  using zigzag_inverse [of x] varint_bytes_length_pos
  by (auto simp: PutVarint_def Varint_def Let_def PutUvarint_make Uvarint_varint_bytes)

lemma PutVarint_total:
  "\<exists>buf n. PutVarint (replicate MaxVarintLen64 0) x = Some (buf, n) \<and> length buf = MaxVarintLen64"
  using varint_bytes_length_64
  by (simp add: PutVarint_def Let_def PutUvarint_make)

lemma Varint_failure_zero: "snd (Varint bs) \<le> 0 \<Longrightarrow> fst (Varint bs) = 0"
proof -
  have loop: "snd (Uvarint_loop bs i x s) \<le> 0 \<Longrightarrow> fst (Uvarint_loop bs i x s) = 0" for i x s
    by (induction bs i x s rule: Uvarint_loop.induct) (auto split: if_splits)
  obtain ux n where u: "Uvarint bs = (ux, n)" by (cases "Uvarint bs")
  assume "snd (Varint bs) \<le> 0"
  then have "n \<le> 0"
    by (simp add: Varint_def Let_def u)
  then have "ux = 0"
    using loop [of 0 0 0] u by (simp add: Uvarint_def)
  then show ?thesis
    by (simp add: Varint_def Let_def u)
qed

lemma PutVarint_encoded:
  "PutVarint (replicate MaxVarintLen64 0) x = Some (encoded x, length (varint_bytes (zigzag x)))"
  by (simp add: PutVarint_def Let_def PutUvarint_make zigzag_def encoded_def)

lemma Varint_encoded: "Varint (encoded x) = (x, int (length (varint_bytes (zigzag x))))"
  using Varint_PutVarint [OF PutVarint_encoded] by simp

lemma fst_Varint_encoded [simp]: "fst (Varint (encoded x)) = x"
  by (simp add: Varint_encoded)

lemma snd_Varint_encoded [simp]: "0 < snd (Varint (encoded x))"
  using varint_bytes_length_pos [of "zigzag x"] by (simp add: Varint_encoded)

lemma length_encoded [simp]: "length (encoded x) = MaxVarintLen64"
  using varint_bytes_length_64 [of "zigzag x"] by (simp add: encoded_def)

lemma MaxVarintLen64_fits [simp]: "\<not> MaxValueSize < MaxVarintLen64"
  by (simp add: MaxValueSize_def MaxVarintLen64_def)

lemma Varint_5: "Varint [10, 0, 0, 0, 0, 0, 0, 0, 0, 0] = (5, 1)"
  by code_simp

lemma Varint_truncated: "Varint [0x80] = (0, 0)"
  by code_simp

lemma Varint_max:
  "Varint [0xFE, 0xFF, 0xFF, 0xFF, 0xFF, 0xFF, 0xFF, 0xFF, 0xFF, 0x01] = (0x7FFFFFFFFFFFFFFF, 10)"
  by code_simp

section \<open>Durations\<close>

lemma sint_word_of_int_Duration:
  "minDuration \<le> x \<Longrightarrow> x \<le> maxDuration \<Longrightarrow> sint (word_of_int x :: int64) = x"
  by (simp only: sint_sbintrunc')
    (simp add: signed_take_bit_int_eq_self minDuration_def maxDuration_def)

lemma sint_Time_Sub: "sint (Time_Sub t u) = max minDuration (min maxDuration (t - u))"
proof -
  have m: "minDuration \<le> maxDuration" by (simp add: minDuration_def maxDuration_def)
  consider "maxDuration < t - u" | "t - u < minDuration"
    | "minDuration \<le> t - u" "t - u \<le> maxDuration" by linarith
  then show ?thesis
  proof cases
    case 1
    then have "Time_Sub t u = word_of_int maxDuration"
      by (simp only: Time_Sub_def if_True)
    then have "sint (Time_Sub t u) = maxDuration"
      by (simp only: sint_word_of_int_Duration [OF m order_refl])
    then show ?thesis using 1 m by linarith
  next
    case 2
    then have "\<not> maxDuration < t - u" using m by simp
    with 2 have "Time_Sub t u = word_of_int minDuration"
      by (simp only: Time_Sub_def if_True if_False)
    then have "sint (Time_Sub t u) = minDuration"
      by (simp only: sint_word_of_int_Duration [OF order_refl m])
    then show ?thesis using 2 m by linarith
  next
    case 3
    then have "\<not> maxDuration < t - u" "\<not> t - u < minDuration" by simp_all
    then have "Time_Sub t u = word_of_int (t - u)"
      by (simp only: Time_Sub_def if_False)
    then have "sint (Time_Sub t u) = t - u"
      by (simp only: sint_word_of_int_Duration [OF 3])
    then show ?thesis using 3 by linarith
  qed
qed

lemma saturate_id: "minDuration \<le> x \<Longrightarrow> x \<le> maxDuration \<Longrightarrow> saturate x = x"
  by (simp add: saturate_def)

lemma sint_Duration_range: "minDuration \<le> sint (w :: int64) \<and> sint w \<le> maxDuration"
  using sint_ge [of w] sint_lt [of w] by (simp add: minDuration_def maxDuration_def)

lemma saturate_mono_add: "0 \<le> e \<Longrightarrow> sint (w :: int64) \<le> saturate (sint w + e)"
  using sint_Duration_range [of w] by (simp add: saturate_def)

section \<open>What a merge does\<close>

text \<open>
  \<^verbatim>\<open>SaveGametime\<close> in one piece: the buffer of \<^verbatim>\<open>MaxVarintLen64\<close> bytes is never
  too short and never too long for \<^verbatim>\<open>Put\<close>, so the only failures are an empty user id
  and an empty or oversized game id; both branches store the saturated difference
  between the clock plus the decoded total and the start time.
\<close>

lemma SaveGametime_eq:
  "SaveGametime clk p t k =
     (if UserID p = [] then (Some ErrBucketNameRequired, t, p, k)
      else
        (let b = (case t (UserID p) of None \<Rightarrow> Map.empty | Some b \<Rightarrow> b);
             t1 = (case t (UserID p) of None \<Rightarrow> t(UserID p \<mapsto> Map.empty) | Some b \<Rightarrow> t);
             played = (case b (GameID p) of None \<Rightarrow> 0 | Some bs \<Rightarrow> fst (Varint bs));
             new = Time_Sub (clk k + sint played) (StartTime p)
         in if GameID p = [] then (Some ErrKeyRequired, t1, p, Suc k)
            else if MaxKeySize < length (GameID p) then (Some ErrKeyTooLarge, t1, p, Suc k)
            else (None, t1(UserID p \<mapsto> b(GameID p \<mapsto> encoded new)),
                  p\<lparr>StartTime := clk (Suc k)\<rparr>, Suc (Suc k))))"
  by (simp add: SaveGametime_def CreateBucketIfNotExists_def Bucket_Get_def Bucket_Put_def
      Time_Add_def Nanoseconds_def PutVarint_encoded Let_def
      split: option.splits)

lemma SaveGametime_no_panic: "fst (SaveGametime clk p t k) \<noteq> Some PanicIndexOutOfRange"
  by (simp add: SaveGametime_eq Let_def)

lemma SaveGametime_success_entry:
  assumes "SaveGametime clk p t k = (None, t', p', k')"
  shows "entry t' (UserID p) (GameID p) =
     Some (encoded (Time_Sub (clk k + stored_total t (UserID p) (GameID p)) (StartTime p)))"
  using assms
  by (auto simp: SaveGametime_eq entry_def stored_total_def Let_def
      split: if_splits option.splits)

lemma SaveGametime_other_bucket:
  assumes "SaveGametime clk p t k = (err, t', p', k')" and "uid \<noteq> UserID p"
  shows "t' uid = t uid"
  using assms
  by (auto simp: SaveGametime_eq Let_def split: if_splits option.splits)

lemma SaveGametime_other_entry:
  assumes "SaveGametime clk p t k = (err, t', p', k')"
    and "uid \<noteq> UserID p \<or> gid \<noteq> GameID p"
  shows "entry t' uid gid = entry t uid gid"
  using assms
  by (auto simp: SaveGametime_eq entry_def Let_def split: if_splits option.splits)

lemma SaveGametime_failure_entry:
  assumes "SaveGametime clk p t k = (Some e, t', p', k')"
  shows "entry t' uid gid = entry t uid gid"
  using assms
  by (auto simp: SaveGametime_eq entry_def Let_def split: if_splits option.splits)

lemma EndGametime_eq:
  "EndGametime clk c p k =
     (case SaveGametime clk p (GametimeDB c) k of
        (Some e, t, p', k') \<Rightarrow>
          (c\<lparr>InProgress := AList.delete (UserID p) (InProgress c)\<rparr>, Some e, k')
      | (None, t, p', k') \<Rightarrow>
          (c\<lparr>InProgress := AList.delete (UserID p) (InProgress c), GametimeDB := t\<rparr>, None, k'))"
  by (simp add: EndGametime_def DB_Update_def Let_def split: prod.splits option.splits)

lemma EndGametime_other_entry:
  assumes "uid \<noteq> UserID p \<or> gid \<noteq> GameID p"
  shows "entry (GametimeDB (fst (EndGametime clk c p k))) uid gid = entry (GametimeDB c) uid gid"
proof -
  obtain err t p' k' where s: "SaveGametime clk p (GametimeDB c) k = (err, t, p', k')"
    by (cases "SaveGametime clk p (GametimeDB c) k") auto
  show ?thesis
    using SaveGametime_other_entry [OF s assms]
    by (cases err) (simp_all add: EndGametime_eq s)
qed

lemma EndGametime_other_bucket:
  assumes "uid \<noteq> UserID p"
  shows "GametimeDB (fst (EndGametime clk c p k)) uid = GametimeDB c uid"
proof -
  obtain err t p' k' where s: "SaveGametime clk p (GametimeDB c) k = (err, t, p', k')"
    by (cases "SaveGametime clk p (GametimeDB c) k") auto
  show ?thesis
    using SaveGametime_other_bucket [OF s assms]
    by (cases err) (simp_all add: EndGametime_eq s)
qed

lemma stored_total_bucket: "t uid = t' uid \<Longrightarrow> stored_total t uid gid = stored_total t' uid gid"
  by (simp add: stored_total_def entry_def)

lemma EndGametime_reads: "k \<le> snd (snd (EndGametime clk c p k))"
  by (auto simp: EndGametime_eq SaveGametime_eq Let_def split: prod.splits option.splits)

lemma EndGametime_merged:
  assumes "UserID p \<noteq> []" "GameID p \<noteq> []" "length (GameID p) \<le> MaxKeySize"
  shows "stored_total (GametimeDB (fst (EndGametime clk c p k))) (UserID p) (GameID p)
     = saturate (stored_total (GametimeDB c) (UserID p) (GameID p) + (clk k - StartTime p))"
proof -
  obtain err t p' k' where s: "SaveGametime clk p (GametimeDB c) k = (err, t, p', k')"
    by (cases "SaveGametime clk p (GametimeDB c) k") auto
  have ok: "err = None"
    using s assms by (auto simp: SaveGametime_eq Let_def split: if_splits)
  have "entry t (UserID p) (GameID p)
      = Some (encoded (Time_Sub (clk k + stored_total (GametimeDB c) (UserID p) (GameID p)) (StartTime p)))"
    using s ok SaveGametime_success_entry [of clk p "GametimeDB c" k t p' k'] by simp
  then have "stored_total t (UserID p) (GameID p)
      = saturate (stored_total (GametimeDB c) (UserID p) (GameID p) + (clk k - StartTime p))"
    by (simp add: stored_total_def sint_Time_Sub saturate_def algebra_simps)
  then show ?thesis
    by (simp add: EndGametime_eq s ok)
qed

lemma Listen_other_bucket:
  "uid \<notin> UserID ` set ps \<Longrightarrow> GametimeDB (fst (Listen clk c ps k)) uid = GametimeDB c uid"
proof (induction ps arbitrary: c k)
  case Nil
  then show ?case by simp
next
  case (Cons p ps)
  obtain c' logged k' where e: "EndGametime clk c p k = (c', logged, k')"
    by (cases "EndGametime clk c p k") auto
  have "GametimeDB c' uid = GametimeDB c uid"
    using EndGametime_other_bucket [of uid p clk c k] Cons.prems by (simp add: e)
  moreover have "GametimeDB (fst (Listen clk c' ps k')) uid = GametimeDB c' uid"
    using Cons.IH [of c' k'] Cons.prems by simp
  moreover have "GametimeDB (fst (Listen clk c (p # ps) k)) = GametimeDB (fst (Listen clk c' ps k'))"
    by (simp add: e split: prod.splits)
  ultimately show ?case
    by simp
qed

lemma Listen_merged:
  assumes "distinct (map UserID ps)" and "q \<in> set ps"
    and "UserID q \<noteq> []" "GameID q \<noteq> []" "length (GameID q) \<le> MaxKeySize"
  shows "\<exists>j\<ge>k. stored_total (GametimeDB (fst (Listen clk c ps k))) (UserID q) (GameID q)
     = saturate (stored_total (GametimeDB c) (UserID q) (GameID q) + (clk j - StartTime q))"
  using assms(1,2)
proof (induction ps arbitrary: c k)
  case Nil
  then show ?case by simp
next
  case (Cons p ps)
  obtain c' logged k' where e: "EndGametime clk c p k = (c', logged, k')"
    by (cases "EndGametime clk c p k") auto
  have k': "k \<le> k'"
    using EndGametime_reads [of k clk c p] by (simp add: e)
  have fin: "GametimeDB (fst (Listen clk c (p # ps) k)) = GametimeDB (fst (Listen clk c' ps k'))"
    by (simp add: e split: prod.splits)
  show ?case
  proof (cases "q = p")
    case True
    then have "UserID q \<notin> UserID ` set ps"
      using Cons.prems(1) by auto
    then have "GametimeDB (fst (Listen clk c' ps k')) (UserID q) = GametimeDB c' (UserID q)"
      by (rule Listen_other_bucket)
    then have "stored_total (GametimeDB (fst (Listen clk c (p # ps) k))) (UserID q) (GameID q)
        = stored_total (GametimeDB c') (UserID q) (GameID q)"
      unfolding fin by (rule stored_total_bucket)
    also have "\<dots> = saturate (stored_total (GametimeDB c) (UserID q) (GameID q) + (clk k - StartTime q))"
      using EndGametime_merged [OF assms(3,4,5), of clk c k] True by (simp add: e)
    finally show ?thesis by blast
  next
    case False
    then have q: "q \<in> set ps" and d: "distinct (map UserID ps)"
      using Cons.prems by auto
    have "UserID p \<notin> UserID ` set ps"
      using Cons.prems(1) by simp
    then have ne: "UserID q \<noteq> UserID p"
      using q by (metis imageI)
    obtain j where j: "k' \<le> j"
      "stored_total (GametimeDB (fst (Listen clk c' ps k'))) (UserID q) (GameID q)
        = saturate (stored_total (GametimeDB c') (UserID q) (GameID q) + (clk j - StartTime q))"
      using Cons.IH [OF d q, of k' c'] by blast
    have "GametimeDB c' (UserID q) = GametimeDB c (UserID q)"
      using EndGametime_other_bucket [OF ne, of clk c k] by (simp add: e)
    then have "stored_total (GametimeDB c') (UserID q) (GameID q)
        = stored_total (GametimeDB c) (UserID q) (GameID q)"
      by (rule stored_total_bucket)
    then show ?thesis
      using j k' unfolding fin by (metis order_trans)
  qed
qed

lemma Snapshot_InProgress: "InProgress (fst (Snapshot clk counter k)) = InProgress counter"
  by (simp add: Snapshot_def split: prod.splits)

lemma kept_refl [simp]: "kept t t"
  by (simp add: kept_def)

lemma kept_trans: "kept t t' \<Longrightarrow> kept t' t'' \<Longrightarrow> kept t t''"
  unfolding kept_def by (meson order_trans)

lemma keptD:
  "kept t t' \<Longrightarrow> entry t uid gid = Some bs \<Longrightarrow>
   \<exists>bs'. entry t' uid gid = Some bs'
     \<and> sint (fst (Varint bs)) \<le> sint (fst (Varint bs'))
     \<and> (0 < snd (Varint bs) \<longrightarrow> 0 < snd (Varint bs'))"
  by (simp add: kept_def)

lemma SaveGametime_reads:
  "SaveGametime clk p t k = (err, t', p', k') \<Longrightarrow> k \<le> k'"
  by (auto simp: SaveGametime_eq Let_def split: if_splits)

lemma SaveGametime_kept:
  assumes "StartTime p \<le> clk k" and "SaveGametime clk p t k = (err, t', p', k')"
  shows "kept t t'"
  unfolding kept_def
proof (intro allI impI)
  fix uid gid bs
  assume en: "entry t uid gid = Some bs"
  show "\<exists>bs'. entry t' uid gid = Some bs'
      \<and> sint (fst (Varint bs)) \<le> sint (fst (Varint bs'))
      \<and> (0 < snd (Varint bs) \<longrightarrow> 0 < snd (Varint bs'))"
  proof (cases "err = None \<and> uid = UserID p \<and> gid = GameID p")
    case True
    let ?v = "stored_total t (UserID p) (GameID p)"
    let ?new = "Time_Sub (clk k + ?v) (StartTime p)"
    have v: "?v = sint (fst (Varint bs))"
      using en True by (simp add: stored_total_def)
    have e: "entry t' uid gid = Some (encoded ?new)"
      using assms(2) True SaveGametime_success_entry [of clk p t k t' p' k'] by simp
    have "sint ?new = saturate (sint (fst (Varint bs)) + (clk k - StartTime p))"
      by (simp add: sint_Time_Sub saturate_def v algebra_simps)
    then have "sint (fst (Varint bs)) \<le> sint ?new"
      using assms(1) saturate_mono_add [of "clk k - StartTime p" "fst (Varint bs)"] by simp
    then show ?thesis using e by simp
  next
    case False
    have "entry t' uid gid = entry t uid gid"
    proof (cases err)
      case None
      with False have "uid \<noteq> UserID p \<or> gid \<noteq> GameID p" by simp
      with assms(2) show ?thesis by (rule SaveGametime_other_entry)
    next
      case (Some e)
      with assms(2) show ?thesis by (simp add: SaveGametime_failure_entry)
    qed
    then show ?thesis using en by simp
  qed
qed

lemma EndGametime_kept:
  assumes "StartTime p \<le> clk k"
  shows "kept (GametimeDB c) (GametimeDB (fst (EndGametime clk c p k)))"
proof -
  obtain err t p' k' where s: "SaveGametime clk p (GametimeDB c) k = (err, t, p', k')"
    by (cases "SaveGametime clk p (GametimeDB c) k") auto
  show ?thesis
    using SaveGametime_kept [OF assms s] by (cases err) (simp_all add: EndGametime_eq s)
qed

lemma Snapshot_loop_kept:
  assumes "\<forall>(u, q) \<in> set ps. \<forall>j\<ge>k. StartTime q \<le> clk j"
  shows "kept t (fst (Snapshot_loop clk ps t k))"
  using assms
proof (induction ps arbitrary: t k)
  case Nil
  then show ?case by simp
next
  case (Cons a ps)
  obtain u q where a: "a = (u, q)" by (cases a)
  obtain err t' p' k' where s: "SaveGametime clk q t k = (err, t', p', k')"
    by (cases "SaveGametime clk q t k") auto
  have k': "k \<le> k'" using s by (rule SaveGametime_reads)
  have "StartTime q \<le> clk k" using Cons.prems a by auto
  then have 1: "kept t t'" using s by (rule SaveGametime_kept)
  have "\<forall>(u, q) \<in> set ps. \<forall>j\<ge>k'. StartTime q \<le> clk j"
    using Cons.prems k' by auto
  then have 2: "kept t' (fst (Snapshot_loop clk ps t' k'))"
    by (rule Cons.IH)
  have "fst (Snapshot_loop clk (a # ps) t k) = fst (Snapshot_loop clk ps t' k')"
    by (cases err) (simp_all add: a s split: prod.splits)
  then show ?case using kept_trans [OF 1 2] by simp
qed

lemma Snapshot_kept:
  assumes "\<forall>(u, q) \<in> set (InProgress c). \<forall>j\<ge>k. StartTime q \<le> clk j"
  shows "kept (GametimeDB c) (GametimeDB (fst (Snapshot clk c k)))"
proof -
  have "GametimeDB (fst (Snapshot clk c k)) = fst (Snapshot_loop clk (InProgress c) (GametimeDB c) k)"
    by (simp add: Snapshot_def split: prod.splits)
  then show ?thesis
    using Snapshot_loop_kept [OF assms, of "GametimeDB c"] by simp
qed

lemma Listen_kept:
  assumes "\<forall>q \<in> set ps. \<forall>j\<ge>k. StartTime q \<le> clk j"
  shows "kept (GametimeDB c) (GametimeDB (fst (Listen clk c ps k)))"
  using assms
proof (induction ps arbitrary: c k)
  case Nil
  then show ?case by simp
next
  case (Cons p ps)
  obtain c' logged k' where e: "EndGametime clk c p k = (c', logged, k')"
    by (cases "EndGametime clk c p k") auto
  have k': "k \<le> k'"
    using EndGametime_reads [of k clk c p] by (simp add: e)
  have "StartTime p \<le> clk k" using Cons.prems by auto
  then have 1: "kept (GametimeDB c) (GametimeDB c')"
    using EndGametime_kept [of p clk k c] by (simp add: e)
  have "\<forall>q \<in> set ps. \<forall>j\<ge>k'. StartTime q \<le> clk j"
    using Cons.prems k' by auto
  then have 2: "kept (GametimeDB c') (GametimeDB (fst (Listen clk c' ps k')))"
    by (rule Cons.IH)
  have "GametimeDB (fst (Listen clk c (p # ps) k)) = GametimeDB (fst (Listen clk c' ps k'))"
    by (simp add: e split: prod.splits)
  then show ?case using kept_trans [OF 1 2] by simp
qed

lemma Time_Sub_back: "Time_Sub (a + sint (x :: int64)) a = x"
proof -
  have "sint (Time_Sub (a + sint x) a) = sint x"
    using sint_Duration_range [of x] by (simp add: sint_Time_Sub)
  then show ?thesis by (rule signed_word_eqI)
qed

lemma SaveGametime_success_keys:
  "SaveGametime clk p t k = (None, t', p', k') \<Longrightarrow>
   UserID p \<noteq> [] \<and> GameID p \<noteq> [] \<and> length (GameID p) \<le> MaxKeySize"
  by (auto simp: SaveGametime_eq Let_def split: if_splits)

lemma SaveGametime_success_iff:
  "fst (SaveGametime clk p t k) = None \<longleftrightarrow>
   UserID p \<noteq> [] \<and> GameID p \<noteq> [] \<and> length (GameID p) \<le> MaxKeySize"
  by (auto simp: SaveGametime_eq Let_def split: if_splits)

lemma GetUserGametime_entry:
  "entry (GametimeDB c) uid gid = Some buf \<Longrightarrow>
   snd (GetUserGametime c uid) = None \<and> fst (GetUserGametime c uid) gid = Some (fst (Varint buf))"
  by (auto simp: GetUserGametime_def Tx_Bucket_def entry_def split: option.splits)

lemma SaveGametime_failure_tx:
  assumes "SaveGametime clk p t k = (Some e, t', p', k')"
  shows "t' = t \<or> t (UserID p) = None \<and> t' = t(UserID p \<mapsto> Map.empty)"
  using assms
  by (auto simp: SaveGametime_eq Let_def split: if_splits option.splits)

lemma Snapshot_first:
  assumes "InProgress c = (u, p) # rest"
    and "SaveGametime clk p (GametimeDB c) k = (err, t, p', k')"
  shows "GametimeDB (fst (Snapshot clk c k)) = fst (Snapshot_loop clk rest t k')
     \<and> fst (snd (Snapshot clk c k))
          = (case err of None \<Rightarrow> [] | Some e \<Rightarrow> [e]) @ fst (snd (Snapshot_loop clk rest t k'))"
  using assms
  by (cases err) (simp_all add: Snapshot_def split: prod.splits)

section \<open>C1: a snapshot does not reset the start time of a live session\<close>

text \<open>
  C1 asks that \<^verbatim>\<open>Snapshot\<close> merge the time elapsed so far and reset the start time of
  every live session in place, so that start, wait \<open>d1\<close>, snapshot, wait \<open>d2\<close>, end
  stores \<open>d1 + d2\<close>. \<^verbatim>\<open>SaveGametime\<close> does set \<^verbatim>\<open>p.StartTime\<close> ("Update start time"),
  but \<^verbatim>\<open>Snapshot\<close> calls it on the loop variable of its \<^verbatim>\<open>range\<close>, a copy of the map's
  value: \<^verbatim>\<open>InProgress\<close> keeps the old start time (\<open>Snapshot_InProgress\<close>). With the clock
  at 0 for the start, at 10 for the snapshot and at 40 for the end (\<open>d1 = 10\<close>,
  \<open>d2 = 30\<close>), the session found in \<^verbatim>\<open>InProgress\<close> after the snapshot still starts at 0,
  and ending it stores \<open>50 = d1 + d1 + d2\<close>, not \<open>40\<close>.
\<close>

theorem Snapshot_double_counts:
  "InProgress (fst (StartGametime (readings [0, 10, 10, 40, 40])
        \<lparr>InProgress = [], GametimeDB = Map.empty\<rparr> ''u'' ''g'' 0))
      = [(''u'', \<lparr>UserID = ''u'', StartTime = 0, GameID = ''g''\<rparr>)]
   \<and> InProgress (fst (Snapshot (readings [0, 10, 10, 40, 40])
        (fst (StartGametime (readings [0, 10, 10, 40, 40])
          \<lparr>InProgress = [], GametimeDB = Map.empty\<rparr> ''u'' ''g'' 0)) 1))
      = [(''u'', \<lparr>UserID = ''u'', StartTime = 0, GameID = ''g''\<rparr>)]
   \<and> fst (GetUserGametime (fst (Snapshot (readings [0, 10, 10, 40, 40])
        (fst (StartGametime (readings [0, 10, 10, 40, 40])
          \<lparr>InProgress = [], GametimeDB = Map.empty\<rparr> ''u'' ''g'' 0)) 1)) ''u'') ''g''
      = Some 10
   \<and> snd (snd (Snapshot (readings [0, 10, 10, 40, 40])
        (fst (StartGametime (readings [0, 10, 10, 40, 40])
          \<lparr>InProgress = [], GametimeDB = Map.empty\<rparr> ''u'' ''g'' 0)) 1)) = 3
   \<and> fst (GetUserGametime (fst (EndGametime (readings [0, 10, 10, 40, 40])
        (fst (Snapshot (readings [0, 10, 10, 40, 40])
          (fst (StartGametime (readings [0, 10, 10, 40, 40])
            \<lparr>InProgress = [], GametimeDB = Map.empty\<rparr> ''u'' ''g'' 0)) 1))
        \<lparr>UserID = ''u'', StartTime = 0, GameID = ''g''\<rparr> 3)) ''u'') ''g''
      = Some 50"
proof -
  let ?clk = "readings [0, 10, 10, 40, 40]"
  let ?p = "\<lparr>UserID = ''u'', StartTime = 0, GameID = ''g''\<rparr>"
  let ?c1 = "\<lparr>InProgress = [(''u'', ?p)], GametimeDB = (Map.empty :: Tx)\<rparr>"
  let ?c2 = "\<lparr>InProgress = [(''u'', ?p)], GametimeDB = [''u'' \<mapsto> [''g'' \<mapsto> encoded 10]]\<rparr>"
  have r: "?clk 0 = 0" "?clk 1 = 10" "?clk (Suc 0) = 10" "?clk 2 = 10" "?clk 3 = 40"
    by (simp_all add: readings_def)
  have t10: "Time_Sub 10 0 = 10" and t50: "Time_Sub 50 0 = 50"
    by (simp_all add: Time_Sub_def maxDuration_def minDuration_def)
  have s1: "fst (StartGametime ?clk \<lparr>InProgress = [], GametimeDB = Map.empty\<rparr> ''u'' ''g'' 0) = ?c1"
    by (simp add: StartGametime_def Let_def r)
  have s2: "Snapshot ?clk ?c1 (Suc 0) = (?c2, [], 3)"
    by (simp add: Snapshot_def SaveGametime_eq Let_def MaxKeySize_def r t10 eval_nat_numeral)
  have s3: "GametimeDB (fst (EndGametime ?clk ?c2 ?p 3)) = [''u'' \<mapsto> [''g'' \<mapsto> encoded 50]]"
    by (simp add: EndGametime_eq SaveGametime_eq Let_def MaxKeySize_def r t50)
  show ?thesis
    by (simp add: s1 s2 s3 GetUserGametime_def Tx_Bucket_def)
qed

section \<open>C2: a value that fails to decode counts as zero\<close>

text \<open>
  C2 asks that a stored value that fails to decode make the merge fail. The merge of a
  session of 30 ns into an entry holding the single byte \<open>0x80\<close> (a truncated varint:
  \<^verbatim>\<open>Varint\<close> returns the count 0) succeeds and stores 30, and the query reports 0 for
  such an entry, with no error.
\<close>

theorem decode_failure_counterexample:
  "Varint [0x80] = (0, 0)
   \<and> fst (SaveGametime (readings [30, 31]) \<lparr>UserID = ''u'', StartTime = 0, GameID = ''g''\<rparr>
        [''u'' \<mapsto> [''g'' \<mapsto> [0x80]]] 0) = None
   \<and> stored_total (fst (snd (SaveGametime (readings [30, 31])
        \<lparr>UserID = ''u'', StartTime = 0, GameID = ''g''\<rparr> [''u'' \<mapsto> [''g'' \<mapsto> [0x80]]] 0)))
        ''u'' ''g'' = 30
   \<and> GetUserGametime \<lparr>InProgress = [], GametimeDB = [''u'' \<mapsto> [''g'' \<mapsto> [0x80]]]\<rparr> ''u''
      = ([''g'' \<mapsto> 0], None)"
proof -
  have c: "readings [30, 31] 0 = 30"
    by (simp add: readings_def)
  have g: "GetUserGametime \<lparr>InProgress = [], GametimeDB = [''u'' \<mapsto> [''g'' \<mapsto> [0x80]]]\<rparr> ''u''
      = ([''g'' \<mapsto> 0], None)"
    by (auto simp: GetUserGametime_def Tx_Bucket_def Varint_truncated)
  show ?thesis
    using g
    by (simp add: SaveGametime_eq Let_def MaxKeySize_def stored_total_def entry_def
        Varint_truncated c sint_Time_Sub maxDuration_def minDuration_def)
qed

text \<open>
  C2, as the code has it. When the bytes of the entry fail to decode (\<^verbatim>\<open>Varint\<close> returns
  a count that is not positive), the value \<^verbatim>\<open>Varint\<close> returns is 0 and the count is
  dropped: the merge does not fail for it (with a user id and a game id that bolt
  accepts it succeeds) and stores the time elapsed alone, correctly encoded; the query
  reports 0 for the entry and no error.
\<close>

theorem decode_failure_ignored:
  assumes "entry t (UserID p) (GameID p) = Some bs" and "snd (Varint bs) \<le> 0"
  shows "fst (Varint bs) = 0
     \<and> (UserID p \<noteq> [] \<and> GameID p \<noteq> [] \<and> length (GameID p) \<le> MaxKeySize \<longrightarrow>
          fst (SaveGametime clk p t k) = None
          \<and> (\<exists>new. entry (fst (snd (SaveGametime clk p t k))) (UserID p) (GameID p) = Some new
                \<and> 0 < snd (Varint new)
                \<and> fst (Varint new) = Nanoseconds (Time_Sub (clk k) (StartTime p))))
     \<and> (GametimeDB c = t \<longrightarrow>
          snd (GetUserGametime c (UserID p)) = None
          \<and> fst (GetUserGametime c (UserID p)) (GameID p) = Some 0)"
proof -
  have z: "fst (Varint bs) = 0"
    using assms(2) by (rule Varint_failure_zero)
  have v: "stored_total t (UserID p) (GameID p) = 0"
    using assms(1) z by (simp add: stored_total_def)
  obtain err t' p' k' where s: "SaveGametime clk p t k = (err, t', p', k')"
    by (cases "SaveGametime clk p t k") auto
  have ok: "err = None" if "UserID p \<noteq> []" "GameID p \<noteq> []" "length (GameID p) \<le> MaxKeySize"
    using s that by (auto simp: SaveGametime_eq Let_def split: if_splits)
  have e: "entry t' (UserID p) (GameID p) = Some (encoded (Time_Sub (clk k) (StartTime p)))"
    if "err = None"
    using SaveGametime_success_entry [of clk p t k t' p' k'] s that v by simp
  have g: "snd (GetUserGametime c (UserID p)) = None
      \<and> fst (GetUserGametime c (UserID p)) (GameID p) = Some 0" if "GametimeDB c = t"
    using assms(1) that z
    by (auto simp: GetUserGametime_def Tx_Bucket_def entry_def split: option.splits)
  show ?thesis
    using z ok e g by (auto simp: s Nanoseconds_def)
qed

text \<open>The entry \<open>0x80 0x80\<close> (no final byte) is such a value.\<close>

theorem decode_failure_ignored_witness:
  "entry [''u'' \<mapsto> [''g'' \<mapsto> [0x80, 0x80]]] ''u'' ''g'' = Some [0x80, 0x80]
   \<and> snd (Varint [0x80, 0x80]) \<le> 0
   \<and> fst (Varint [0x80, 0x80]) = 0
   \<and> fst (SaveGametime (readings [30, 31]) \<lparr>UserID = ''u'', StartTime = 0, GameID = ''g''\<rparr>
        [''u'' \<mapsto> [''g'' \<mapsto> [0x80, 0x80]]] 0) = None
   \<and> fst (GetUserGametime \<lparr>InProgress = [], GametimeDB = [''u'' \<mapsto> [''g'' \<mapsto> [0x80, 0x80]]]\<rparr> ''u'')
        ''g'' = Some 0"
proof -
  let ?p = "\<lparr>UserID = ''u'', StartTime = 0, GameID = ''g''\<rparr>"
  let ?t = "[''u'' \<mapsto> [''g'' \<mapsto> [0x80, 0x80 :: byte]]]"
  let ?c = "\<lparr>InProgress = [], GametimeDB = ?t\<rparr>"
  have e: "entry ?t (UserID ?p) (GameID ?p) = Some [0x80, 0x80]"
    by (simp add: entry_def)
  have f: "snd (Varint [0x80, 0x80]) \<le> 0"
    by code_simp
  have k: "UserID ?p \<noteq> [] \<and> GameID ?p \<noteq> [] \<and> length (GameID ?p) \<le> MaxKeySize"
    by (simp add: MaxKeySize_def)
  have c: "GametimeDB ?c = ?t"
    by simp
  show ?thesis
    using decode_failure_ignored [OF e f, of "readings [30, 31]" 0 ?c] e f k c by simp
qed

section \<open>C3: a merge adds the elapsed time, within the range of int64\<close>

text \<open>
  C3 asks that a merge of the elapsed time \<open>e\<close> into an entry holding \<open>v\<close> leave \<open>v + e\<close>,
  with no clamping. The total is computed with \<^verbatim>\<open>time.Now().Add(played).Sub(StartTime)\<close>, and
  \<^verbatim>\<open>Sub\<close> saturates: an entry holding the largest int64 still holds it after a merge
  of 1 ns, which is neither \<open>v + e\<close> as an integer nor \<open>v + e\<close> wrapped around.
\<close>

theorem merge_clamps_counterexample:
  "stored_total [''u'' \<mapsto> [''g'' \<mapsto> [0xFE, 0xFF, 0xFF, 0xFF, 0xFF, 0xFF, 0xFF, 0xFF, 0xFF, 0x01]]]
      ''u'' ''g'' = 9223372036854775807
   \<and> readings [1, 1] 0 - StartTime \<lparr>UserID = ''u'', StartTime = 0, GameID = ''g''\<rparr> = 1
   \<and> fst (SaveGametime (readings [1, 1]) \<lparr>UserID = ''u'', StartTime = 0, GameID = ''g''\<rparr>
        [''u'' \<mapsto> [''g'' \<mapsto> [0xFE, 0xFF, 0xFF, 0xFF, 0xFF, 0xFF, 0xFF, 0xFF, 0xFF, 0x01]]] 0) = None
   \<and> stored_total
        (fst (snd (SaveGametime (readings [1, 1]) \<lparr>UserID = ''u'', StartTime = 0, GameID = ''g''\<rparr>
          [''u'' \<mapsto> [''g'' \<mapsto> [0xFE, 0xFF, 0xFF, 0xFF, 0xFF, 0xFF, 0xFF, 0xFF, 0xFF, 0x01]]] 0)))
        ''u'' ''g'' = 9223372036854775807
   \<and> (9223372036854775807 :: int) \<noteq> 9223372036854775807 + 1
   \<and> (9223372036854775807 :: int64) \<noteq> 9223372036854775807 + 1"
proof -
  have c: "readings [1, 1] 0 = 1"
    by (simp add: readings_def)
  show ?thesis
    by (simp add: SaveGametime_eq Let_def MaxKeySize_def stored_total_def entry_def Varint_max c
        sint_Time_Sub maxDuration_def minDuration_def)
qed

text \<open>
  C3, as the code has it. After a merge that succeeds, the entry of the session's user
  and game decodes (with a positive count) to the total before the merge, zero when
  there was no entry, plus the elapsed time \<open>clk k - StartTime p\<close>, brought into the range
  of int64; so it is exactly \<open>v + e\<close> whenever \<open>v + e\<close> is in that range. Nothing else is
  applied. \<^verbatim>\<open>countPlaytime\<close> of \<^verbatim>\<open>gobot/main.go\<close> computes the same total in memory.
\<close>

theorem SaveGametime_total:
  assumes "SaveGametime clk p t k = (None, t', p', k')"
  shows "(\<exists>bs. entry t' (UserID p) (GameID p) = Some bs \<and> 0 < snd (Varint bs)
        \<and> sint (fst (Varint bs)) =
            saturate (stored_total t (UserID p) (GameID p) + (clk k - StartTime p))
        \<and> (minDuration \<le> stored_total t (UserID p) (GameID p) + (clk k - StartTime p)
             \<and> stored_total t (UserID p) (GameID p) + (clk k - StartTime p) \<le> maxDuration
           \<longrightarrow> sint (fst (Varint bs)) =
                 stored_total t (UserID p) (GameID p) + (clk k - StartTime p)))
     \<and> (\<exists>m w. playedTime (countPlaytime st uid gid start now) uid = Some m \<and> m gid = Some w
        \<and> sint w = saturate (played_total st uid gid + (now - start)))"
proof -
  let ?v = "stored_total t (UserID p) (GameID p)"
  let ?new = "Time_Sub (clk k + ?v) (StartTime p)"
  have e: "entry t' (UserID p) (GameID p) = Some (encoded ?new)"
    using assms by (rule SaveGametime_success_entry)
  have s: "sint ?new = saturate (?v + (clk k - StartTime p))"
    by (simp add: sint_Time_Sub saturate_def algebra_simps)
  have a: "\<exists>bs. entry t' (UserID p) (GameID p) = Some bs \<and> 0 < snd (Varint bs)
        \<and> sint (fst (Varint bs)) = saturate (?v + (clk k - StartTime p))
        \<and> (minDuration \<le> ?v + (clk k - StartTime p) \<and> ?v + (clk k - StartTime p) \<le> maxDuration
           \<longrightarrow> sint (fst (Varint bs)) = ?v + (clk k - StartTime p))"
    using e s by (auto simp: saturate_id)
  have b: "\<exists>m w. playedTime (countPlaytime st uid gid start now) uid = Some m \<and> m gid = Some w
        \<and> sint w = saturate (played_total st uid gid + (now - start))"
    by (auto simp: countPlaytime_def played_total_def Let_def Time_Add_def Nanoseconds_def
        sint_Time_Sub saturate_def algebra_simps split: option.splits)
  show ?thesis using a b by blast
qed

text \<open>An entry holding 5 and a session of 30 ns: the entry holds 35.\<close>

theorem SaveGametime_total_witness:
  "fst (SaveGametime (readings [130, 131])
          \<lparr>UserID = ''u'', StartTime = 100, GameID = ''g''\<rparr>
          [''u'' \<mapsto> [''g'' \<mapsto> [10, 0, 0, 0, 0, 0, 0, 0, 0, 0]]] 0) = None
   \<and> stored_total [''u'' \<mapsto> [''g'' \<mapsto> [10, 0, 0, 0, 0, 0, 0, 0, 0, 0]]] ''u'' ''g'' = 5
   \<and> (\<exists>bs. entry (fst (snd (SaveGametime (readings [130, 131])
          \<lparr>UserID = ''u'', StartTime = 100, GameID = ''g''\<rparr>
          [''u'' \<mapsto> [''g'' \<mapsto> [10, 0, 0, 0, 0, 0, 0, 0, 0, 0]]] 0))) ''u'' ''g'' = Some bs
        \<and> 0 < snd (Varint bs) \<and> sint (fst (Varint bs)) = 35)"
proof -
  let ?p = "\<lparr>UserID = ''u'', StartTime = 100, GameID = ''g''\<rparr>"
  let ?t = "[''u'' \<mapsto> [''g'' \<mapsto> [10, 0, 0, 0, 0, 0, 0, 0, 0, 0 :: byte]]]"
  let ?r = "SaveGametime (readings [130, 131]) ?p ?t 0"
  have ok: "fst ?r = None"
    by (simp add: SaveGametime_eq Let_def MaxKeySize_def)
  then have h: "?r = (None, fst (snd ?r), fst (snd (snd ?r)), snd (snd (snd ?r)))"
    by (metis prod.collapse)
  have v: "stored_total ?t ''u'' ''g'' = 5"
    by (simp add: stored_total_def entry_def Varint_5)
  have c: "readings [130, 131] 0 = 130"
    by (simp add: readings_def)
  show ?thesis
    using SaveGametime_total [OF h] ok v c
    by (simp add: saturate_def minDuration_def maxDuration_def)
qed

section \<open>C4: the query and the user who never played\<close>

text \<open>
  C4. When the database has no bucket for the user, \<^verbatim>\<open>GetUserGametime\<close> returns the
  error "user never played" (next to the empty map it has allocated), an error of its
  own and none of bolt's. When the bucket is there, it returns no error and a map with
  exactly the keys of the bucket, each with the value \<^verbatim>\<open>Varint\<close> returns for its bytes.
\<close>

theorem GetUserGametime_no_history:
  "(GametimeDB counter uid = None \<longrightarrow>
      GetUserGametime counter uid = (Map.empty, Some ErrUserNeverPlayed))
   \<and> (\<forall>b. GametimeDB counter uid = Some b \<longrightarrow>
        snd (GetUserGametime counter uid) = None
        \<and> dom (fst (GetUserGametime counter uid)) = dom b
        \<and> (\<forall>gid bs. b gid = Some bs \<longrightarrow>
              fst (GetUserGametime counter uid) gid = Some (fst (Varint bs))))"
  by (auto simp: GetUserGametime_def Tx_Bucket_def dom_def split: option.splits)

text \<open>A database with one user: the query for another user, and for that user.\<close>

theorem GetUserGametime_no_history_witness:
  "GametimeDB \<lparr>InProgress = [], GametimeDB = [''u'' \<mapsto> [''g'' \<mapsto> [10, 0, 0, 0, 0, 0, 0, 0, 0, 0]]]\<rparr> ''v'' = None
   \<and> snd (GetUserGametime
        \<lparr>InProgress = [], GametimeDB = [''u'' \<mapsto> [''g'' \<mapsto> [10, 0, 0, 0, 0, 0, 0, 0, 0, 0]]]\<rparr> ''v'')
      = Some ErrUserNeverPlayed
   \<and> GametimeDB \<lparr>InProgress = [], GametimeDB = [''u'' \<mapsto> [''g'' \<mapsto> [10, 0, 0, 0, 0, 0, 0, 0, 0, 0]]]\<rparr> ''u''
      = Some [''g'' \<mapsto> [10, 0, 0, 0, 0, 0, 0, 0, 0, 0]]
   \<and> snd (GetUserGametime
        \<lparr>InProgress = [], GametimeDB = [''u'' \<mapsto> [''g'' \<mapsto> [10, 0, 0, 0, 0, 0, 0, 0, 0, 0]]]\<rparr> ''u'')
      = None
   \<and> fst (GetUserGametime
        \<lparr>InProgress = [], GametimeDB = [''u'' \<mapsto> [''g'' \<mapsto> [10, 0, 0, 0, 0, 0, 0, 0, 0, 0]]]\<rparr> ''u'') ''g''
      = Some 5
   \<and> dom (fst (GetUserGametime
        \<lparr>InProgress = [], GametimeDB = [''u'' \<mapsto> [''g'' \<mapsto> [10, 0, 0, 0, 0, 0, 0, 0, 0, 0]]]\<rparr> ''u''))
      = {''g''}"
proof -
  let ?c = "\<lparr>InProgress = [], GametimeDB = [''u'' \<mapsto> [''g'' \<mapsto> [10, 0, 0, 0, 0, 0, 0, 0, 0, 0 :: byte]]]\<rparr>"
  have n: "GametimeDB ?c ''v'' = None" by simp
  have b: "GametimeDB ?c ''u'' = Some [''g'' \<mapsto> [10, 0, 0, 0, 0, 0, 0, 0, 0, 0]]" by simp
  have g: "[''g'' \<mapsto> [10, 0, 0, 0, 0, 0, 0, 0, 0, 0 :: byte]] ''g'' = Some [10, 0, 0, 0, 0, 0, 0, 0, 0, 0]"
    by simp
  have 1: "snd (GetUserGametime ?c ''v'') = Some ErrUserNeverPlayed"
    using GetUserGametime_no_history [of ?c "''v''"] n by simp
  have 2: "snd (GetUserGametime ?c ''u'') = None
      \<and> dom (fst (GetUserGametime ?c ''u'')) = dom [''g'' \<mapsto> [10, 0, 0, 0, 0, 0, 0, 0, 0, 0 :: byte]]
      \<and> fst (GetUserGametime ?c ''u'') ''g'' = Some (fst (Varint [10, 0, 0, 0, 0, 0, 0, 0, 0, 0]))"
    using GetUserGametime_no_history [of ?c "''u''"] b g by blast
  show ?thesis
    using 1 2 n b by (simp add: Varint_5)
qed

section \<open>C5: starting over a live session\<close>

text \<open>
  C5. When the user already has a session in progress, \<^verbatim>\<open>StartGametime\<close> replaces it
  by a session starting at the current time: the old start time is gone, the sessions of
  the other users stay, the database is not touched (nothing is merged), and the
  function has no error to return. It reads the clock once.
\<close>

theorem StartGametime_overwrites:
  assumes "map_of (InProgress counter) uid = Some old"
  shows "map_of (InProgress (fst (StartGametime clk counter uid gid k))) uid
        = Some \<lparr>UserID = uid, StartTime = clk k, GameID = gid\<rparr>
     \<and> (\<forall>other. other \<noteq> uid \<longrightarrow>
          map_of (InProgress (fst (StartGametime clk counter uid gid k))) other
            = map_of (InProgress counter) other)
     \<and> GametimeDB (fst (StartGametime clk counter uid gid k)) = GametimeDB counter
     \<and> snd (StartGametime clk counter uid gid k) = Suc k"
  by (simp add: StartGametime_def Let_def update_conv')

text \<open>A user playing \<open>g\<close> since 100 starts \<open>h\<close> at 130.\<close>

theorem StartGametime_overwrites_witness:
  "map_of (InProgress \<lparr>InProgress = [(''u'', \<lparr>UserID = ''u'', StartTime = 100, GameID = ''g''\<rparr>)],
              GametimeDB = Map.empty\<rparr>) ''u''
      = Some \<lparr>UserID = ''u'', StartTime = 100, GameID = ''g''\<rparr>
   \<and> InProgress (fst (StartGametime (readings [130])
        \<lparr>InProgress = [(''u'', \<lparr>UserID = ''u'', StartTime = 100, GameID = ''g''\<rparr>)],
         GametimeDB = Map.empty\<rparr> ''u'' ''h'' 0))
      = [(''u'', \<lparr>UserID = ''u'', StartTime = 130, GameID = ''h''\<rparr>)]
   \<and> GametimeDB (fst (StartGametime (readings [130])
        \<lparr>InProgress = [(''u'', \<lparr>UserID = ''u'', StartTime = 100, GameID = ''g''\<rparr>)],
         GametimeDB = Map.empty\<rparr> ''u'' ''h'' 0)) ''u'' = None"
proof -
  let ?c = "\<lparr>InProgress = [(''u'', \<lparr>UserID = ''u'', StartTime = 100, GameID = ''g''\<rparr>)],
              GametimeDB = (Map.empty :: Tx)\<rparr>"
  have h: "map_of (InProgress ?c) ''u'' = Some \<lparr>UserID = ''u'', StartTime = 100, GameID = ''g''\<rparr>"
    by simp
  have l: "InProgress (fst (StartGametime (readings [130]) ?c ''u'' ''h'' 0))
      = [(''u'', \<lparr>UserID = ''u'', StartTime = 130, GameID = ''h''\<rparr>)]"
    by (simp add: StartGametime_def Let_def readings_def)
  show ?thesis
    using StartGametime_overwrites [OF h, of "readings [130]" "''h''" 0] l by simp
qed

section \<open>C6: a failed merge is rolled back by EndGametime, not by Snapshot\<close>




section \<open>C7: the stored encoding round-trips\<close>

text \<open>
  C7. For every 64-bit signed integer \<open>x\<close>: \<^verbatim>\<open>PutVarint\<close> into a fresh buffer of
  \<^verbatim>\<open>MaxVarintLen64\<close> zero bytes does not panic, writes \<open>n\<close> bytes and leaves the bytes
  after them zero, and \<^verbatim>\<open>Varint\<close> of the buffer is \<open>x\<close> with the count \<open>n\<close>. On the code:
  when a merge succeeds and the total it computes is \<open>x\<close>, the entry \<^verbatim>\<open>SaveGametime\<close>
  stores is that buffer; \<^verbatim>\<open>GetUserGametime\<close> on a database with that transaction
  reports \<open>x\<close> for the game and no error (the query read path); and a next merge for
  the same user and game with no time elapsed reads \<open>x\<close> and stores \<open>x\<close> again (the
  merge read path). Every \<open>x\<close> is such a total: a merge with no entry before, with keys
  bolt accepts and an elapsed time of \<open>x\<close> nanoseconds stores it, and the query returns it.
\<close>

theorem varint_roundtrip:
  "(\<exists>buf n. PutVarint (replicate MaxVarintLen64 0) x = Some (buf, n)
      \<and> length buf = MaxVarintLen64
      \<and> 0 < n \<and> n \<le> MaxVarintLen64
      \<and> drop n buf = replicate (MaxVarintLen64 - n) 0
      \<and> Varint buf = (x, int n))
   \<and> (SaveGametime clk p t k = (None, t', p', k')
        \<and> Nanoseconds (Time_Sub (clk k + stored_total t (UserID p) (GameID p)) (StartTime p)) = x
      \<longrightarrow>
        (\<exists>buf n. entry t' (UserID p) (GameID p) = Some buf
           \<and> PutVarint (replicate MaxVarintLen64 0) x = Some (buf, n)
           \<and> length buf = MaxVarintLen64 \<and> Varint buf = (x, int n) \<and> 0 < n)
        \<and> (GametimeDB c = t' \<longrightarrow>
              snd (GetUserGametime c (UserID p)) = None
              \<and> fst (GetUserGametime c (UserID p)) (GameID p) = Some x)
        \<and> (UserID q = UserID p \<and> GameID q = GameID p \<and> clk2 k2 = StartTime q \<longrightarrow>
              fst (SaveGametime clk2 q t' k2) = None
              \<and> (\<exists>buf. entry (fst (snd (SaveGametime clk2 q t' k2))) (UserID p) (GameID p) = Some buf
                    \<and> fst (Varint buf) = x \<and> 0 < snd (Varint buf))))
   \<and> (UserID p \<noteq> [] \<and> GameID p \<noteq> [] \<and> length (GameID p) \<le> MaxKeySize
        \<and> entry t (UserID p) (GameID p) = None \<and> clk k - StartTime p = sint x
      \<longrightarrow>
        fst (SaveGametime clk p t k) = None
        \<and> snd (GetUserGametime \<lparr>InProgress = ips, GametimeDB = fst (snd (SaveGametime clk p t k))\<rparr>
                 (UserID p)) = None
        \<and> fst (GetUserGametime \<lparr>InProgress = ips, GametimeDB = fst (snd (SaveGametime clk p t k))\<rparr>
                 (UserID p)) (GameID p) = Some x)"
proof -
  have lib: "\<exists>buf n. PutVarint (replicate MaxVarintLen64 0) x = Some (buf, n)
      \<and> length buf = MaxVarintLen64
      \<and> 0 < n \<and> n \<le> MaxVarintLen64
      \<and> drop n buf = replicate (MaxVarintLen64 - n) 0
      \<and> Varint buf = (x, int n)"
  proof -
    define n where "n = length (varint_bytes (zigzag x))"
    have n: "0 < n" "n \<le> MaxVarintLen64"
      using varint_bytes_length_pos [of "zigzag x"] varint_bytes_length_64 [of "zigzag x"]
      by (simp_all add: n_def)
    have "PutVarint (replicate MaxVarintLen64 0) x = Some (encoded x, n)"
      by (simp add: PutVarint_encoded n_def)
    moreover have "drop n (encoded x) = replicate (MaxVarintLen64 - n) 0"
      by (simp add: encoded_def n_def)
    moreover have "Varint (encoded x) = (x, int n)"
      by (simp add: Varint_encoded n_def)
    ultimately show ?thesis using n by auto
  qed
  have paths: "(\<exists>buf n. entry t' (UserID p) (GameID p) = Some buf
           \<and> PutVarint (replicate MaxVarintLen64 0) x = Some (buf, n)
           \<and> length buf = MaxVarintLen64 \<and> Varint buf = (x, int n) \<and> 0 < n)
        \<and> (GametimeDB c = t' \<longrightarrow>
              snd (GetUserGametime c (UserID p)) = None
              \<and> fst (GetUserGametime c (UserID p)) (GameID p) = Some x)
        \<and> (UserID q = UserID p \<and> GameID q = GameID p \<and> clk2 k2 = StartTime q \<longrightarrow>
              fst (SaveGametime clk2 q t' k2) = None
              \<and> (\<exists>buf. entry (fst (snd (SaveGametime clk2 q t' k2))) (UserID p) (GameID p) = Some buf
                    \<and> fst (Varint buf) = x \<and> 0 < snd (Varint buf)))"
    if s: "SaveGametime clk p t k = (None, t', p', k')"
      and x: "Nanoseconds (Time_Sub (clk k + stored_total t (UserID p) (GameID p)) (StartTime p)) = x"
  proof -
    have e: "entry t' (UserID p) (GameID p) = Some (encoded x)"
      using SaveGametime_success_entry [OF s] x by (simp add: Nanoseconds_def)
    have 1: "\<exists>buf n. entry t' (UserID p) (GameID p) = Some buf
           \<and> PutVarint (replicate MaxVarintLen64 0) x = Some (buf, n)
           \<and> length buf = MaxVarintLen64 \<and> Varint buf = (x, int n) \<and> 0 < n"
      using e varint_bytes_length_pos [of "zigzag x"]
      by (simp add: PutVarint_encoded Varint_encoded)
    have 2: "snd (GetUserGametime c (UserID p)) = None
              \<and> fst (GetUserGametime c (UserID p)) (GameID p) = Some x" if "GametimeDB c = t'"
      using GetUserGametime_entry [of c "UserID p" "GameID p" "encoded x"] e that by simp
    have 3: "fst (SaveGametime clk2 q t' k2) = None
              \<and> (\<exists>buf. entry (fst (snd (SaveGametime clk2 q t' k2))) (UserID p) (GameID p) = Some buf
                    \<and> fst (Varint buf) = x \<and> 0 < snd (Varint buf))"
      if q: "UserID q = UserID p" "GameID q = GameID p" "clk2 k2 = StartTime q"
    proof -
      have ok: "fst (SaveGametime clk2 q t' k2) = None"
        using SaveGametime_success_keys [OF s] q by (simp add: SaveGametime_success_iff)
      obtain t'' q' k'' where s2: "SaveGametime clk2 q t' k2 = (None, t'', q', k'')"
        using ok by (cases "SaveGametime clk2 q t' k2") auto
      have v: "stored_total t' (UserID q) (GameID q) = sint x"
        using e q by (simp add: stored_total_def)
      have "entry t'' (UserID q) (GameID q) = Some (encoded x)"
        using SaveGametime_success_entry [OF s2] v q(3) by (simp add: Time_Sub_back)
      then show ?thesis using ok q by (simp add: s2)
    qed
    show ?thesis using 1 2 3 by blast
  qed
  have every: "fst (SaveGametime clk p t k) = None
        \<and> snd (GetUserGametime \<lparr>InProgress = ips, GametimeDB = fst (snd (SaveGametime clk p t k))\<rparr>
                 (UserID p)) = None
        \<and> fst (GetUserGametime \<lparr>InProgress = ips, GametimeDB = fst (snd (SaveGametime clk p t k))\<rparr>
                 (UserID p)) (GameID p) = Some x"
    if h: "UserID p \<noteq> []" "GameID p \<noteq> []" "length (GameID p) \<le> MaxKeySize"
      "entry t (UserID p) (GameID p) = None" "clk k - StartTime p = sint x"
  proof -
    have ok: "fst (SaveGametime clk p t k) = None"
      using h(1,2,3) by (simp add: SaveGametime_success_iff)
    obtain t1 p1 k1 where s1: "SaveGametime clk p t k = (None, t1, p1, k1)"
      using ok by (cases "SaveGametime clk p t k") auto
    have c: "clk k = StartTime p + sint x" using h(5) by simp
    have "entry t1 (UserID p) (GameID p) = Some (encoded x)"
      using SaveGametime_success_entry [OF s1] h(4)
      by (simp add: stored_total_def c Time_Sub_back)
    then show ?thesis
      using GetUserGametime_entry [of "\<lparr>InProgress = ips, GametimeDB = t1\<rparr>" "UserID p" "GameID p" "encoded x"]
      by (simp add: s1)
  qed
  show ?thesis using lib paths every by blast
qed

text \<open>
  A session of 300 ns on an empty database, the query after it, and a second merge with
  no time elapsed.
\<close>

theorem varint_roundtrip_witness:
  "fst (SaveGametime (readings [400, 401]) \<lparr>UserID = ''u'', StartTime = 100, GameID = ''g''\<rparr>
        Map.empty 0) = None
   \<and> entry Map.empty ''u'' ''g'' = None
   \<and> readings [400, 401] 0 - 100 = sint (300 :: int64)
   \<and> Nanoseconds (Time_Sub (readings [400, 401] 0 + stored_total Map.empty ''u'' ''g'') 100) = 300
   \<and> (\<exists>buf n. entry (fst (snd (SaveGametime (readings [400, 401])
          \<lparr>UserID = ''u'', StartTime = 100, GameID = ''g''\<rparr> Map.empty 0))) ''u'' ''g'' = Some buf
        \<and> PutVarint (replicate MaxVarintLen64 0) 300 = Some (buf, n)
        \<and> Varint buf = (300, int n))
   \<and> GetUserGametime \<lparr>InProgress = [], GametimeDB = fst (snd (SaveGametime (readings [400, 401])
          \<lparr>UserID = ''u'', StartTime = 100, GameID = ''g''\<rparr> Map.empty 0))\<rparr> ''u''
      = ([''g'' \<mapsto> 300], None)
   \<and> (\<exists>buf. entry (fst (snd (SaveGametime (readings [500, 501])
          \<lparr>UserID = ''u'', StartTime = 500, GameID = ''g''\<rparr>
          (fst (snd (SaveGametime (readings [400, 401])
            \<lparr>UserID = ''u'', StartTime = 100, GameID = ''g''\<rparr> Map.empty 0))) 0))) ''u'' ''g''
          = Some buf
        \<and> fst (Varint buf) = 300)"
proof -
  let ?p = "\<lparr>UserID = ''u'', StartTime = 100, GameID = ''g''\<rparr>"
  let ?q = "\<lparr>UserID = ''u'', StartTime = 500, GameID = ''g''\<rparr>"
  let ?clk = "readings [400, 401]"
  let ?r = "SaveGametime ?clk ?p Map.empty 0"
  let ?ce = "\<lparr>InProgress = [], GametimeDB = fst (snd ?r)\<rparr>"
  have ok: "fst ?r = None"
    by (simp add: SaveGametime_eq Let_def MaxKeySize_def)
  then have h: "?r = (None, fst (snd ?r), fst (snd (snd ?r)), snd (snd (snd ?r)))"
    by (metis prod.collapse)
  have e: "entry Map.empty (UserID ?p) (GameID ?p) = None"
    by (simp add: entry_def)
  have d: "?clk 0 - StartTime ?p = sint (300 :: int64)"
    by (simp add: readings_def)
  have x: "Nanoseconds (Time_Sub (?clk 0 + stored_total Map.empty (UserID ?p) (GameID ?p)) (StartTime ?p)) = 300"
    by (simp add: Nanoseconds_def stored_total_def entry_def readings_def Time_Sub_def
        maxDuration_def minDuration_def)
  have keys: "UserID ?p \<noteq> [] \<and> GameID ?p \<noteq> [] \<and> length (GameID ?p) \<le> MaxKeySize"
    by (simp add: MaxKeySize_def)
  have q: "UserID ?q = UserID ?p \<and> GameID ?q = GameID ?p \<and> readings [500, 501] 0 = StartTime ?q"
    by (simp add: readings_def)
  note inst = varint_roundtrip [of 300 ?clk ?p Map.empty 0 "fst (snd ?r)" "fst (snd (snd ?r))"
      "snd (snd (snd ?r))" ?ce ?q "readings [500, 501]" 0 "[]"]
  have 1: "\<exists>buf n. entry (fst (snd ?r)) (UserID ?p) (GameID ?p) = Some buf
        \<and> PutVarint (replicate MaxVarintLen64 0) 300 = Some (buf, n)
        \<and> Varint buf = (300, int n)"
    using inst h x by blast
  have 2: "snd (GetUserGametime ?ce (UserID ?p)) = None
        \<and> fst (GetUserGametime ?ce (UserID ?p)) (GameID ?p) = Some 300"
    using inst h x by simp
  have 3: "\<exists>buf. entry (fst (snd (SaveGametime (readings [500, 501]) ?q (fst (snd ?r)) 0)))
          (UserID ?p) (GameID ?p) = Some buf \<and> fst (Varint buf) = 300"
    using inst h x q by blast
  have 4: "snd (GetUserGametime ?ce (UserID ?p)) = None
        \<and> fst (GetUserGametime ?ce (UserID ?p)) (GameID ?p) = Some 300"
    using inst keys e d by blast
  have dm: "fst (snd ?r) = [''u'' \<mapsto> [''g'' \<mapsto> encoded (Time_Sub 400 100)]]"
    by (simp add: SaveGametime_eq Let_def MaxKeySize_def readings_def)
  have g: "GetUserGametime ?ce ''u'' = ([''g'' \<mapsto> 300], None)"
  proof -
    have "fst (GetUserGametime ?ce ''u'') = [''g'' \<mapsto> 300]"
    proof
      fix gid
      show "fst (GetUserGametime ?ce ''u'') gid = [''g'' \<mapsto> 300] gid"
        using 4 by (cases "gid = ''g''") (simp_all add: GetUserGametime_def Tx_Bucket_def dm)
    qed
    then show ?thesis using 4 by (simp add: prod_eq_iff)
  qed
  show ?thesis
    using ok e d x 1 g 3 by simp
qed

section \<open>C8: totals do not decrease and entries are not deleted\<close>

text \<open>
  C8. When the clock read by a merge is not before the start time of its session, every
  entry of the transaction is still there after \<^verbatim>\<open>SaveGametime\<close>, whether it failed or
  not, with a value that is not smaller than before, and an entry that decoded with a
  positive count still does; the same holds of the database after \<^verbatim>\<open>EndGametime\<close>.
  So it does after \<^verbatim>\<open>Listen\<close> has ended any sessions and after \<^verbatim>\<open>Snapshot\<close>, when no
  clock read from then on is before the start time of one of their sessions. These are
  the only functions that write the database.
\<close>

theorem totals_kept:
  "(StartTime p \<le> clk k \<longrightarrow>
      kept t (fst (snd (SaveGametime clk p t k)))
      \<and> kept (GametimeDB c) (GametimeDB (fst (EndGametime clk c p k))))
   \<and> ((\<forall>q \<in> set ps. \<forall>j\<ge>k. StartTime q \<le> clk j) \<longrightarrow>
      kept (GametimeDB c) (GametimeDB (fst (Listen clk c ps k))))
   \<and> ((\<forall>(u, q) \<in> set (InProgress c). \<forall>j\<ge>k. StartTime q \<le> clk j) \<longrightarrow>
      kept (GametimeDB c) (GametimeDB (fst (Snapshot clk c k))))"
proof -
  obtain err t' p' k' where s: "SaveGametime clk p t k = (err, t', p', k')"
    by (cases "SaveGametime clk p t k") auto
  have "kept t (fst (snd (SaveGametime clk p t k)))" if "StartTime p \<le> clk k"
    using SaveGametime_kept [OF that s] by (simp add: s)
  then show ?thesis
    using EndGametime_kept Listen_kept Snapshot_kept by blast
qed

text \<open>An entry holding 5 and a session of at least 30 ns, through each of the four.\<close>

theorem totals_kept_witness:
  "StartTime \<lparr>UserID = ''u'', StartTime = 100, GameID = ''g''\<rparr> \<le> readings [130, 131] 0
   \<and> entry [''u'' \<mapsto> [''g'' \<mapsto> [10, 0, 0, 0, 0, 0, 0, 0, 0, 0]]] ''u'' ''g''
        = Some [10, 0, 0, 0, 0, 0, 0, 0, 0, 0]
   \<and> (\<exists>bs'. entry (fst (snd (SaveGametime (readings [130, 131])
          \<lparr>UserID = ''u'', StartTime = 100, GameID = ''g''\<rparr>
          [''u'' \<mapsto> [''g'' \<mapsto> [10, 0, 0, 0, 0, 0, 0, 0, 0, 0]]] 0))) ''u'' ''g'' = Some bs'
        \<and> 5 \<le> sint (fst (Varint bs')) \<and> 0 < snd (Varint bs'))
   \<and> (\<exists>bs'. entry (GametimeDB (fst (EndGametime (readings [130, 131])
          \<lparr>InProgress = [], GametimeDB = [''u'' \<mapsto> [''g'' \<mapsto> [10, 0, 0, 0, 0, 0, 0, 0, 0, 0]]]\<rparr>
          \<lparr>UserID = ''u'', StartTime = 100, GameID = ''g''\<rparr> 0))) ''u'' ''g'' = Some bs'
        \<and> 5 \<le> sint (fst (Varint bs')) \<and> 0 < snd (Varint bs'))
   \<and> (\<exists>bs'. entry (GametimeDB (fst (Listen (readings [130, 131])
          \<lparr>InProgress = [], GametimeDB = [''u'' \<mapsto> [''g'' \<mapsto> [10, 0, 0, 0, 0, 0, 0, 0, 0, 0]]]\<rparr>
          [\<lparr>UserID = ''u'', StartTime = 100, GameID = ''g''\<rparr>] 0))) ''u'' ''g'' = Some bs'
        \<and> 5 \<le> sint (fst (Varint bs')) \<and> 0 < snd (Varint bs'))
   \<and> (\<exists>bs'. entry (GametimeDB (fst (Snapshot (readings [130, 131])
          \<lparr>InProgress = [(''u'', \<lparr>UserID = ''u'', StartTime = 100, GameID = ''g''\<rparr>)],
           GametimeDB = [''u'' \<mapsto> [''g'' \<mapsto> [10, 0, 0, 0, 0, 0, 0, 0, 0, 0]]]\<rparr> 0))) ''u'' ''g''
          = Some bs'
        \<and> 5 \<le> sint (fst (Varint bs')) \<and> 0 < snd (Varint bs'))"
proof -
  let ?p = "\<lparr>UserID = ''u'', StartTime = 100, GameID = ''g''\<rparr>"
  let ?five = "[10, 0, 0, 0, 0, 0, 0, 0, 0, 0] :: byte list"
  let ?t = "[''u'' \<mapsto> [''g'' \<mapsto> ?five]]"
  let ?cs = "\<lparr>InProgress = [(''u'', ?p)], GametimeDB = ?t\<rparr>"
  let ?ce = "\<lparr>InProgress = [], GametimeDB = ?t\<rparr>"
  let ?clk = "readings [130, 131]"
  have late: "100 \<le> ?clk j" for j
    by (cases j) (simp_all add: readings_def)
  have c: "StartTime ?p \<le> ?clk 0"
    using late [of 0] by simp
  have l: "\<forall>q \<in> set [?p]. \<forall>j\<ge>0. StartTime q \<le> ?clk j"
    using late by simp
  have s: "\<forall>(u, q) \<in> set (InProgress ?cs). \<forall>j\<ge>0. StartTime q \<le> ?clk j"
    using late by simp
  have e: "entry ?t ''u'' ''g'' = Some ?five"
    by (simp add: entry_def)
  have e0: "entry (GametimeDB ?ce) ''u'' ''g'' = Some ?five"
    and e1: "entry (GametimeDB ?cs) ''u'' ''g'' = Some ?five"
    by (simp_all add: entry_def)
  note inst0 = totals_kept [of ?p ?clk 0 ?t ?ce "[?p]"]
  note inst1 = totals_kept [of ?p ?clk 0 ?t ?cs "[?p]"]
  have k1: "kept ?t (fst (snd (SaveGametime ?clk ?p ?t 0)))"
    and k2: "kept (GametimeDB ?ce) (GametimeDB (fst (EndGametime ?clk ?ce ?p 0)))"
    and k3: "kept (GametimeDB ?ce) (GametimeDB (fst (Listen ?clk ?ce [?p] 0)))"
    using inst0 c l by blast+
  have k4: "kept (GametimeDB ?cs) (GametimeDB (fst (Snapshot ?clk ?cs 0)))"
    using inst1 s by blast
  show ?thesis
    using keptD [OF k1 e] keptD [OF k2 e0] keptD [OF k3 e0] keptD [OF k4 e1] c e
    by (simp add: Varint_5)
qed

section \<open>C9: a merge changes one entry\<close>

text \<open>
  C9. A merge for a user and a game leaves every other entry as it was, in the
  transaction of \<^verbatim>\<open>SaveGametime\<close> and in the database after \<^verbatim>\<open>EndGametime\<close>, and
  the bucket of every other user is unchanged as a whole. So when \<^verbatim>\<open>Listen\<close> ends the
  sessions of users that are all different, the entry of each session (with a user id
  and a game id that bolt accepts) holds what its own merge makes of the entry the
  database had before: that total plus the time elapsed at the clock read of that
  merge, brought into the range of int64.
\<close>

theorem merge_frame:
  "(uid \<noteq> UserID p \<or> gid \<noteq> GameID p \<longrightarrow>
      entry (fst (snd (SaveGametime clk p t k))) uid gid = entry t uid gid
      \<and> entry (GametimeDB (fst (EndGametime clk c p k))) uid gid = entry (GametimeDB c) uid gid)
   \<and> (uid \<noteq> UserID p \<longrightarrow>
      fst (snd (SaveGametime clk p t k)) uid = t uid
      \<and> GametimeDB (fst (EndGametime clk c p k)) uid = GametimeDB c uid)
   \<and> (distinct (map UserID ps) \<and> q \<in> set ps
        \<and> UserID q \<noteq> [] \<and> GameID q \<noteq> [] \<and> length (GameID q) \<le> MaxKeySize \<longrightarrow>
      (\<exists>j\<ge>k. stored_total (GametimeDB (fst (Listen clk c ps k))) (UserID q) (GameID q)
         = saturate (stored_total (GametimeDB c) (UserID q) (GameID q) + (clk j - StartTime q))))"
proof -
  obtain err t' p' k' where s: "SaveGametime clk p t k = (err, t', p', k')"
    by (cases "SaveGametime clk p t k") auto
  have a: "entry (fst (snd (SaveGametime clk p t k))) uid gid = entry t uid gid
      \<and> entry (GametimeDB (fst (EndGametime clk c p k))) uid gid = entry (GametimeDB c) uid gid"
    if h: "uid \<noteq> UserID p \<or> gid \<noteq> GameID p"
    using SaveGametime_other_entry [OF s h] EndGametime_other_entry [OF h] by (simp add: s)
  have b: "fst (snd (SaveGametime clk p t k)) uid = t uid
      \<and> GametimeDB (fst (EndGametime clk c p k)) uid = GametimeDB c uid"
    if h: "uid \<noteq> UserID p"
    using SaveGametime_other_bucket [OF s h] EndGametime_other_bucket [OF h] by (simp add: s)
  show ?thesis
    using a b Listen_merged [of ps q k clk c] by blast
qed

text \<open>
  The entry of user \<open>v\<close> when a session of user \<open>u\<close> is merged, and the sessions of
  \<open>u\<close> (30 ns) and \<open>v\<close> (35 ns) ended one after the other on an empty database.
\<close>

theorem merge_frame_witness:
  "''v'' \<noteq> UserID \<lparr>UserID = ''u'', StartTime = 100, GameID = ''g''\<rparr>
   \<and> entry (fst (snd (SaveGametime (readings [130, 131])
          \<lparr>UserID = ''u'', StartTime = 100, GameID = ''g''\<rparr>
          [''v'' \<mapsto> [''g'' \<mapsto> [10, 0, 0, 0, 0, 0, 0, 0, 0, 0]]] 0))) ''v'' ''g''
        = Some [10, 0, 0, 0, 0, 0, 0, 0, 0, 0]
   \<and> GametimeDB (fst (EndGametime (readings [130, 131])
          \<lparr>InProgress = [], GametimeDB = [''v'' \<mapsto> [''g'' \<mapsto> [10, 0, 0, 0, 0, 0, 0, 0, 0, 0]]]\<rparr>
          \<lparr>UserID = ''u'', StartTime = 100, GameID = ''g''\<rparr> 0)) ''v''
        = Some [''g'' \<mapsto> [10, 0, 0, 0, 0, 0, 0, 0, 0, 0]]
   \<and> distinct (map UserID [\<lparr>UserID = ''u'', StartTime = 100, GameID = ''g''\<rparr>,
                             \<lparr>UserID = ''v'', StartTime = 105, GameID = ''h''\<rparr>])
   \<and> (\<exists>j\<ge>0. stored_total (GametimeDB (fst (Listen (readings [130, 131, 140, 141])
          \<lparr>InProgress = [], GametimeDB = Map.empty\<rparr>
          [\<lparr>UserID = ''u'', StartTime = 100, GameID = ''g''\<rparr>,
           \<lparr>UserID = ''v'', StartTime = 105, GameID = ''h''\<rparr>] 0))) ''v'' ''h''
        = saturate (readings [130, 131, 140, 141] j - 105))
   \<and> stored_total (GametimeDB (fst (Listen (readings [130, 131, 140, 141])
          \<lparr>InProgress = [], GametimeDB = Map.empty\<rparr>
          [\<lparr>UserID = ''u'', StartTime = 100, GameID = ''g''\<rparr>,
           \<lparr>UserID = ''v'', StartTime = 105, GameID = ''h''\<rparr>] 0))) ''v'' ''h'' = 35
   \<and> stored_total (GametimeDB (fst (Listen (readings [130, 131, 140, 141])
          \<lparr>InProgress = [], GametimeDB = Map.empty\<rparr>
          [\<lparr>UserID = ''u'', StartTime = 100, GameID = ''g''\<rparr>,
           \<lparr>UserID = ''v'', StartTime = 105, GameID = ''h''\<rparr>] 0))) ''u'' ''g'' = 30"
proof -
  let ?pu = "\<lparr>UserID = ''u'', StartTime = 100, GameID = ''g''\<rparr>"
  let ?pv = "\<lparr>UserID = ''v'', StartTime = 105, GameID = ''h''\<rparr>"
  let ?tv = "[''v'' \<mapsto> [''g'' \<mapsto> [10, 0, 0, 0, 0, 0, 0, 0, 0, 0 :: byte]]]"
  let ?c0 = "\<lparr>InProgress = [], GametimeDB = (Map.empty :: Tx)\<rparr>"
  let ?clk = "readings [130, 131, 140, 141]"
  note inst1 = merge_frame [of "''v''" ?pu "''g''" "readings [130, 131]" ?tv 0
      "\<lparr>InProgress = [], GametimeDB = ?tv\<rparr>" "[]" ?pu]
  note inst2 = merge_frame [of "''v''" ?pu "''g''" ?clk Map.empty 0 ?c0 "[?pu, ?pv]" ?pv]
  have d: "''v'' \<noteq> UserID ?pu" by simp
  have f1: "entry (fst (snd (SaveGametime (readings [130, 131]) ?pu ?tv 0))) ''v'' ''g''
      = Some [10, 0, 0, 0, 0, 0, 0, 0, 0, 0]"
    using inst1 d by (simp add: entry_def)
  have f2: "GametimeDB (fst (EndGametime (readings [130, 131])
      \<lparr>InProgress = [], GametimeDB = ?tv\<rparr> ?pu 0)) ''v'' = Some [''g'' \<mapsto> [10, 0, 0, 0, 0, 0, 0, 0, 0, 0]]"
    using inst1 d by simp
  have h: "distinct (map UserID [?pu, ?pv]) \<and> ?pv \<in> set [?pu, ?pv]
      \<and> UserID ?pv \<noteq> [] \<and> GameID ?pv \<noteq> [] \<and> length (GameID ?pv) \<le> MaxKeySize"
    by (simp add: MaxKeySize_def)
  have f3: "\<exists>j\<ge>0. stored_total (GametimeDB (fst (Listen ?clk ?c0 [?pu, ?pv] 0))) ''v'' ''h''
      = saturate (?clk j - 105)"
    using inst2 h by (simp add: stored_total_def entry_def)
  have r: "?clk 0 = 130" "?clk (Suc 0) = 131" "?clk 2 = 140" "?clk (Suc (Suc 0)) = 140"
    by (simp_all add: readings_def)
  have t30: "Time_Sub 130 100 = 30" and t35: "Time_Sub 140 105 = 35"
    by (simp_all add: Time_Sub_def maxDuration_def minDuration_def)
  have l: "GametimeDB (fst (Listen ?clk ?c0 [?pu, ?pv] 0))
      = [''u'' \<mapsto> [''g'' \<mapsto> encoded 30], ''v'' \<mapsto> [''h'' \<mapsto> encoded 35]]"
    by (simp add: EndGametime_eq SaveGametime_eq Let_def MaxKeySize_def r t30 t35)
  have f4: "stored_total (GametimeDB (fst (Listen ?clk ?c0 [?pu, ?pv] 0))) ''v'' ''h'' = 35"
    and f5: "stored_total (GametimeDB (fst (Listen ?clk ?c0 [?pu, ?pv] 0))) ''u'' ''g'' = 30"
    unfolding l by (simp_all add: stored_total_def entry_def)
  show ?thesis
    using d f1 f2 h f3 f4 f5 by simp
qed

section \<open>C10: no entry and an entry holding zero\<close>

text \<open>
  C10. Take two transactions, one with no entry for the session's user and game and one
  with an entry holding 0. \<^verbatim>\<open>SaveGametime\<close> returns the same error, the same start time
  and the same number of clock reads on both, and when it succeeds the entry holds the
  same bytes in both: the encoding of \<^verbatim>\<open>time.Since(StartTime)\<close>. Likewise for
  \<^verbatim>\<open>countPlaytime\<close>: a total of 0 and no total give the same state.
\<close>

theorem SaveGametime_branches_agree:
  "(entry t0 (UserID p) (GameID p) = None
      \<and> entry t1 (UserID p) (GameID p) = Some bs \<and> fst (Varint bs) = 0
      \<and> SaveGametime clk p t0 k = (err0, t0', p0', k0')
      \<and> SaveGametime clk p t1 k = (err1, t1', p1', k1')
    \<longrightarrow> err0 = err1 \<and> p0' = p1' \<and> k0' = k1'
        \<and> (err0 = None \<longrightarrow>
             entry t0' (UserID p) (GameID p) = entry t1' (UserID p) (GameID p)
             \<and> (\<exists>new. entry t0' (UserID p) (GameID p) = Some new
                  \<and> fst (Varint new) = Nanoseconds (Time_Sub (clk k) (StartTime p))
                  \<and> 0 < snd (Varint new))
             \<and> StartTime p0' = clk (Suc k)))
   \<and> (playedTime st uid = Some m \<and> m gid = Some 0
    \<longrightarrow> countPlaytime st uid gid start now =
          countPlaytime (st\<lparr>playedTime := (playedTime st)(uid \<mapsto> m(gid := None))\<rparr>) uid gid start now
        \<and> (\<exists>m'. playedTime (countPlaytime st uid gid start now) uid = Some m'
              \<and> m' gid = Some (Nanoseconds (Time_Sub now start))))"
proof -
  have a: "err0 = err1 \<and> p0' = p1' \<and> k0' = k1'
        \<and> (err0 = None \<longrightarrow>
             entry t0' (UserID p) (GameID p) = entry t1' (UserID p) (GameID p)
             \<and> (\<exists>new. entry t0' (UserID p) (GameID p) = Some new
                  \<and> fst (Varint new) = Nanoseconds (Time_Sub (clk k) (StartTime p))
                  \<and> 0 < snd (Varint new))
             \<and> StartTime p0' = clk (Suc k))"
    if h: "entry t0 (UserID p) (GameID p) = None"
      "entry t1 (UserID p) (GameID p) = Some bs" "fst (Varint bs) = 0"
      "SaveGametime clk p t0 k = (err0, t0', p0', k0')"
      "SaveGametime clk p t1 k = (err1, t1', p1', k1')"
  proof -
    have v0: "stored_total t0 (UserID p) (GameID p) = 0"
      using h(1) by (simp add: stored_total_def)
    have v1: "stored_total t1 (UserID p) (GameID p) = 0"
      using h(2,3) by (simp add: stored_total_def)
    have same: "err0 = err1 \<and> p0' = p1' \<and> k0' = k1'"
      using h(4,5) by (auto simp: SaveGametime_eq Let_def split: if_splits)
    have st: "err0 = None \<Longrightarrow> StartTime p0' = clk (Suc k)"
      using h(4) by (auto simp: SaveGametime_eq Let_def split: if_splits)
    have e0: "err0 = None \<Longrightarrow>
        entry t0' (UserID p) (GameID p) = Some (encoded (Time_Sub (clk k) (StartTime p)))"
      using SaveGametime_success_entry [of clk p t0 k t0' p0' k0'] h(4) v0 by simp
    have e1: "err0 = None \<Longrightarrow>
        entry t1' (UserID p) (GameID p) = Some (encoded (Time_Sub (clk k) (StartTime p)))"
      using SaveGametime_success_entry [of clk p t1 k t1' p1' k1'] h(5) v1 same by simp
    show ?thesis
      using same st e0 e1 by (simp add: Nanoseconds_def)
  qed
  have b: "countPlaytime st uid gid start now =
          countPlaytime (st\<lparr>playedTime := (playedTime st)(uid \<mapsto> m(gid := None))\<rparr>) uid gid start now
        \<and> (\<exists>m'. playedTime (countPlaytime st uid gid start now) uid = Some m'
              \<and> m' gid = Some (Nanoseconds (Time_Sub now start)))"
    if "playedTime st uid = Some m" "m gid = Some 0"
    using that by (simp add: countPlaytime_def Time_Add_def Let_def)
  show ?thesis using a b by blast
qed

text \<open>A bucket without the game and a bucket where the game holds 0.\<close>

theorem SaveGametime_branches_agree_witness:
  "entry [''u'' \<mapsto> Map.empty] ''u'' ''g'' = None
   \<and> entry [''u'' \<mapsto> [''g'' \<mapsto> [0, 0, 0, 0, 0, 0, 0, 0, 0, 0]]] ''u'' ''g''
        = Some [0, 0, 0, 0, 0, 0, 0, 0, 0, 0]
   \<and> fst (Varint [0, 0, 0, 0, 0, 0, 0, 0, 0, 0]) = 0
   \<and> fst (SaveGametime (readings [130, 131]) \<lparr>UserID = ''u'', StartTime = 100, GameID = ''g''\<rparr>
        [''u'' \<mapsto> Map.empty] 0) = None
   \<and> fst (SaveGametime (readings [130, 131]) \<lparr>UserID = ''u'', StartTime = 100, GameID = ''g''\<rparr>
        [''u'' \<mapsto> [''g'' \<mapsto> [0, 0, 0, 0, 0, 0, 0, 0, 0, 0]]] 0) = None
   \<and> entry (fst (snd (SaveGametime (readings [130, 131])
        \<lparr>UserID = ''u'', StartTime = 100, GameID = ''g''\<rparr> [''u'' \<mapsto> Map.empty] 0))) ''u'' ''g''
      = entry (fst (snd (SaveGametime (readings [130, 131])
        \<lparr>UserID = ''u'', StartTime = 100, GameID = ''g''\<rparr>
        [''u'' \<mapsto> [''g'' \<mapsto> [0, 0, 0, 0, 0, 0, 0, 0, 0, 0]]] 0))) ''u'' ''g''
   \<and> countPlaytime \<lparr>usersPlaying = {''u''}, playedTime = [''u'' \<mapsto> [''7'' \<mapsto> 0]]\<rparr> ''u'' ''7'' 100 130
      = countPlaytime \<lparr>usersPlaying = {''u''}, playedTime = [''u'' \<mapsto> Map.empty]\<rparr> ''u'' ''7'' 100 130"
proof -
  let ?p = "\<lparr>UserID = ''u'', StartTime = 100, GameID = ''g''\<rparr>"
  let ?t0 = "[''u'' \<mapsto> Map.empty] :: Tx"
  let ?z = "[0, 0, 0, 0, 0, 0, 0, 0, 0, 0] :: byte list"
  let ?t1 = "[''u'' \<mapsto> [''g'' \<mapsto> ?z]]"
  let ?r0 = "SaveGametime (readings [130, 131]) ?p ?t0 0"
  let ?r1 = "SaveGametime (readings [130, 131]) ?p ?t1 0"
  let ?st = "\<lparr>usersPlaying = {''u''}, playedTime = [''u'' \<mapsto> [''7'' \<mapsto> (0 :: int64)]]\<rparr>"
  have z: "fst (Varint ?z) = 0" by code_simp
  have h0: "?r0 = (fst ?r0, fst (snd ?r0), fst (snd (snd ?r0)), snd (snd (snd ?r0)))" by simp
  have h1: "?r1 = (fst ?r1, fst (snd ?r1), fst (snd (snd ?r1)), snd (snd (snd ?r1)))" by simp
  have e0: "entry ?t0 (UserID ?p) (GameID ?p) = None" by (simp add: entry_def)
  have e1: "entry ?t1 (UserID ?p) (GameID ?p) = Some ?z" by (simp add: entry_def)
  have ok: "fst ?r0 = None" by (simp add: SaveGametime_eq Let_def MaxKeySize_def)
  have pt: "playedTime ?st ''u'' = Some [''7'' \<mapsto> 0] \<and> [''7'' \<mapsto> (0 :: int64)] ''7'' = Some 0"
    by simp
  note inst = SaveGametime_branches_agree [of ?t0 ?p ?t1 ?z "readings [130, 131]" 0
        "fst ?r0" "fst (snd ?r0)" "fst (snd (snd ?r0))" "snd (snd (snd ?r0))"
        "fst ?r1" "fst (snd ?r1)" "fst (snd (snd ?r1))" "snd (snd (snd ?r1))"
        ?st "''u''" "[''7'' \<mapsto> 0]" "''7''" 100 130]
  have a: "fst ?r0 = fst ?r1
      \<and> (fst ?r0 = None \<longrightarrow>
            entry (fst (snd ?r0)) (UserID ?p) (GameID ?p) = entry (fst (snd ?r1)) (UserID ?p) (GameID ?p))"
    using inst e0 e1 z h0 h1 by blast
  have b: "countPlaytime ?st ''u'' ''7'' 100 130
      = countPlaytime (?st\<lparr>playedTime := (playedTime ?st)(''u'' \<mapsto> [''7'' \<mapsto> (0 :: int64)](''7'' := None))\<rparr>) ''u'' ''7'' 100 130"
    using inst pt by blast
  show ?thesis
    using a b e0 e1 z ok by simp
qed

end
